theory Spec2Isabelle
  imports Complex_Main "HOL-Library.AList"
begin

section \<open>Strings and numbers of the host language\<close>

text \<open>
  The engine is TypeScript. Its strings are modelled as \<^typ>\<open>string\<close>, read as the UTF-8
  bytes of the JavaScript string: an ASCII character is one \<^typ>\<open>char\<close>, and the two
  non-ASCII characters the source writes into result names are spelled as their bytes.
  The built-ins \<open>toUpperCase\<close> and \<open>trim\<close> and the regular-expression class \<open>\s\<close> are
  modelled on ASCII: the model is exact for strings whose non-ASCII characters are neither
  cased letters nor Unicode white space.

  A JavaScript \<open>number\<close> is modelled as the \<^typ>\<open>real\<close> it denotes. The rounding of the binary
  floating-point format is a parameter of the model, introduced with the matrices below;
  \<open>NaN\<close> and the infinities are outside the model.
\<close>

definition isDigit :: "char \<Rightarrow> bool" where
  "isDigit c = (c \<in> set ''0123456789'')"

definition isLetter :: "char \<Rightarrow> bool" where
  "isLetter c = (c \<in> set ''abcdefghijklmnopqrstuvwxyzABCDEFGHIJKLMNOPQRSTUVWXYZ'')"

definition isSpace :: "char \<Rightarrow> bool" where
  "isSpace c = (c \<in> set [CHR 0x20, CHR 0x09, CHR 0x0A, CHR 0x0B, CHR 0x0C, CHR 0x0D])"

definition isOpChar :: "char \<Rightarrow> bool" where
  "isOpChar c = (c \<in> set (CHR 0x27 # ''+-*/^(),''))"

definition toUpperChar :: "char \<Rightarrow> char" where
  "toUpperChar c =
     (case map_of (zip ''abcdefghijklmnopqrstuvwxyz'' ''ABCDEFGHIJKLMNOPQRSTUVWXYZ'') c of
        None \<Rightarrow> c
      | Some u \<Rightarrow> u)"

definition toUpperCase :: "string \<Rightarrow> string" where
  "toUpperCase s = map toUpperChar s"

definition trim :: "string \<Rightarrow> string" where
  "trim s = rev (dropWhile isSpace (rev (dropWhile isSpace s)))"

text \<open>\<open>String.fromCharCode(n)\<close>: the code unit \<open>n mod 2^16\<close>, as UTF-8 bytes.\<close>

definition fromCharCode :: "nat \<Rightarrow> string" where
  "fromCharCode n =
     (let c = n mod 65536 in
      if c < 128 then [char_of c]
      else if c < 2048 then [char_of (192 + c div 64), char_of (128 + c mod 64)]
      else [char_of (224 + c div 4096), char_of (128 + (c div 64) mod 64),
            char_of (128 + c mod 64)])"

section \<open>Tokens\<close>

datatype TokenType = NUMBER | IDENTIFIER | OPERATOR | LPAREN | RPAREN | COMMA

record Token =
  "type" :: TokenType
  "value" :: string

subsection \<open>Tokenizer\<close>

text \<open>
  The source drives the regular expression
  \<^verbatim>\<open>/([0-9]+(\.[0-9]+)?)|([a-zA-Z]+)|(['+\-*/^(),])|(\s+)/g\<close>
  with \<open>exec\<close> until it finds no more match. The four alternatives start with disjoint
  characters, so at each position at most one of them matches, greedily; a character that
  starts none of them is passed over by the search.
\<close>

definition scanNumber :: "string \<Rightarrow> string \<times> string" where
  "scanNumber s =
     (let intPart = takeWhile isDigit s; rest = dropWhile isDigit s in
      case rest of
        d # r # rest' \<Rightarrow>
          if d = CHR ''.'' \<and> isDigit r
          then (intPart @ [d] @ takeWhile isDigit (r # rest'), dropWhile isDigit (r # rest'))
          else (intPart, rest)
      | _ \<Rightarrow> (intPart, rest))"

lemma length_snd_scanNumber: "length (snd (scanNumber s)) \<le> length (dropWhile isDigit s)"
proof -
  define intPart where "intPart = takeWhile isDigit s"
  define rest where "rest = dropWhile isDigit s"
  have eq: "scanNumber s =
      (case rest of
         d # r # rest' \<Rightarrow>
           if d = CHR ''.'' \<and> isDigit r
           then (intPart @ [d] @ takeWhile isDigit (r # rest'), dropWhile isDigit (r # rest'))
           else (intPart, rest)
       | _ \<Rightarrow> (intPart, rest))"
    unfolding scanNumber_def intPart_def rest_def Let_def ..
  have "length (snd (scanNumber s)) \<le> length rest"
  proof (cases rest)
    case Nil
    then show ?thesis by (simp add: eq)
  next
    case (Cons d t)
    note outer = Cons
    show ?thesis
    proof (cases t)
      case Nil
      with outer show ?thesis by (simp add: eq)
    next
      case (Cons r rest')
      have "length (dropWhile isDigit rest') \<le> length rest'" by (rule length_dropWhile_le)
      with outer Cons show ?thesis by (simp add: eq)
    qed
  qed
  then show ?thesis by (simp add: rest_def)
qed

lemma scanNumber_shorter:
  "isDigit c \<Longrightarrow> length (snd (scanNumber (c # cs))) < Suc (length cs)"
proof -
  assume "isDigit c"
  then have "dropWhile isDigit (c # cs) = dropWhile isDigit cs" by simp
  moreover have "length (dropWhile isDigit cs) \<le> length cs" by (rule length_dropWhile_le)
  ultimately show ?thesis
    using length_snd_scanNumber [of "c # cs"] by simp
qed

function tokenize :: "string \<Rightarrow> Token list" where
  "tokenize [] = []"
| "tokenize (c # cs) =
     (if isDigit c then
        \<lparr>type = NUMBER, value = fst (scanNumber (c # cs))\<rparr> # tokenize (snd (scanNumber (c # cs)))
      else if isLetter c then
        \<lparr>type = IDENTIFIER, value = c # takeWhile isLetter cs\<rparr> # tokenize (dropWhile isLetter cs)
      else if isOpChar c then
        (if c = CHR ''('' then \<lparr>type = LPAREN, value = ''(''\<rparr>
         else if c = CHR '')'' then \<lparr>type = RPAREN, value = '')''\<rparr>
         else \<lparr>type = OPERATOR, value = [c]\<rparr>) # tokenize cs
      else if isSpace c then tokenize (dropWhile isSpace cs)
      else tokenize cs)"
  by pat_completeness auto
termination
proof (relation "measure length")
  fix c :: char and cs :: string
  assume "isDigit c"
  then show "(snd (scanNumber (c # cs)), c # cs) \<in> measure length"
    using scanNumber_shorter [of c cs] by simp
next
  fix c :: char and cs :: string
  have "length (dropWhile isLetter cs) \<le> length cs" by (rule length_dropWhile_le)
  then show "(dropWhile isLetter cs, c # cs) \<in> measure length" by simp
next
  fix c :: char and cs :: string
  have "length (dropWhile isSpace cs) \<le> length cs" by (rule length_dropWhile_le)
  then show "(dropWhile isSpace cs, c # cs) \<in> measure length" by simp
qed simp_all

subsection \<open>Shunting-yard conversion to postfix\<close>

definition precedence :: "string \<Rightarrow> nat option" where
  "precedence v =
     (if v = ''+'' \<or> v = ''-'' then Some 1
      else if v = ''*'' \<or> v = ''/'' then Some 2
      else if v = ''^'' then Some 3
      else if v = [CHR 0x27] then Some 4
      else None)"

text \<open>\<open>>=\<close> on two table entries; a missing entry is \<open>undefined\<close> and compares false.\<close>

definition precGe :: "nat option \<Rightarrow> nat option \<Rightarrow> bool" where
  "precGe a b = (case (a, b) of (Some x, Some y) \<Rightarrow> y \<le> x | _ \<Rightarrow> False)"

text \<open>
  Both stacks of the source are arrays that grow and shrink at their end, so the top of
  \<open>operatorStack\<close> is \<^const>\<open>last\<close> and \<open>pop\<close> leaves \<^const>\<open>butlast\<close>.
\<close>

function popOperators :: "Token \<Rightarrow> Token list \<times> Token list \<Rightarrow> Token list \<times> Token list" where
  "popOperators token (outputQueue, operatorStack) =
     (if operatorStack \<noteq> [] \<and>
         type (last operatorStack) = OPERATOR \<and>
         precGe (precedence (value (last operatorStack))) (precedence (value token)) \<and>
         value token \<noteq> ''^''
      then popOperators token (outputQueue @ [last operatorStack], butlast operatorStack)
      else (outputQueue, operatorStack))"
  by pat_completeness auto
termination
  by (relation "measure (\<lambda>(token, outputQueue, operatorStack). length operatorStack)") auto

function popUntilLParen :: "Token list \<times> Token list \<Rightarrow> Token list \<times> Token list" where
  "popUntilLParen (outputQueue, operatorStack) =
     (if operatorStack \<noteq> [] \<and> type (last operatorStack) \<noteq> LPAREN
      then popUntilLParen (outputQueue @ [last operatorStack], butlast operatorStack)
      else (outputQueue, operatorStack))"
  by pat_completeness auto
termination
  by (relation "measure (\<lambda>(outputQueue, operatorStack). length operatorStack)") auto

function popAll :: "Token list \<times> Token list \<Rightarrow> Token list" where
  "popAll (outputQueue, operatorStack) =
     (if operatorStack \<noteq> []
      then popAll (outputQueue @ [last operatorStack], butlast operatorStack)
      else outputQueue)"
  by pat_completeness auto
termination
  by (relation "measure (\<lambda>(outputQueue, operatorStack). length operatorStack)") auto

definition rpnStep :: "Token \<Rightarrow> Token list \<times> Token list \<Rightarrow> Token list \<times> Token list" where
  "rpnStep token st =
     (if type token = NUMBER \<or> type token = IDENTIFIER then (fst st @ [token], snd st)
      else if type token = OPERATOR then
        (let st' = popOperators token st in (fst st', snd st' @ [token]))
      else if type token = LPAREN then (fst st, snd st @ [token])
      else if type token = RPAREN then
        (let st' = popUntilLParen st in (fst st', butlast (snd st')))
      else st)"

definition toRPN :: "Token list \<Rightarrow> Token list" where
  "toRPN tokens = popAll (fold rpnStep tokens ([], []))"

section \<open>Matrices\<close>

text \<open>
  A matrix entity as the source's interface \<open>Matrix\<close> declares it. The optional narration
  \<open>steps\<close> is left out: the engine only ever writes it, and it formats numbers as text.
  The field \<open>id\<close> of the source is \<open>id'\<close> here.

  The type of \<open>data\<close> is a parameter. In the first model below it is the grid of cells
  itself, a list of rows; in the second model, which follows what the engine writes into
  arrays that it shares by reference, it is the address of the array in a store. The engine
  has no assignment to a property of a matrix object, so the object itself is a value in
  both.
\<close>

record 'd MatrixOf =
  id' :: string
  name :: string
  rows :: nat
  cols :: nat
  data :: 'd

type_synonym grid = "real list list"

type_synonym Matrix = "grid MatrixOf"

datatype OperationType =
  ADD | SUBTRACT | MULTIPLY | SCALAR_ADD | SCALAR_SUB | SCALAR_MUL | TRANSPOSE | POWER
  | EXPRESSION

text \<open>
  Every \<open>throw\<close> of the engine is a value. The constructors are the error kinds; the source
  tells them apart by their messages:
  \<^item> \<open>EmptyExpression\<close>: ``La expresion esta vacia.''
  \<^item> \<open>UnknownVariable\<close>: ``Matriz '...' no encontrada.''
  \<^item> \<open>TransposeRequiresMatrix\<close>: ``Transpuesta solo aplica a matrices.''
  \<^item> \<open>MissingOperand\<close>: ``Operacion invalida (faltan operandos).''
  \<^item> \<open>PowerOperandTypeError\<close>: ``Potencia requiere base Matriz y exponente Numerico.''
  \<^item> \<open>UnknownOperator\<close>: ``Operador desconocido: ...''
  \<^item> \<open>MalformedExpression\<close>: ``Error en la evaluacion de la expresion.''
  \<^item> \<open>FinalResultMustBeMatrix\<close>: ``El resultado final debe ser una Matriz, no un numero.''
  \<^item> \<open>ScalarMatrixAdditionUnsupported\<close>: ``No se puede sumar un escalar con una matriz
    directamente ...'' and ``No se puede restar un escalar con una matriz directamente.''
  \<^item> \<open>DimensionMismatch\<close>: ``Dimensiones incompatibles para suma / resta / multiplicacion
    ...'' and ``La matriz ... debe ser cuadrada para elevar a potencia.''
  \<^item> \<open>InvalidExponent\<close>: ``El exponente debe ser un entero positivo mayor o igual a 1.''
  \<^item> \<open>JsTypeError\<close>: the \<open>TypeError\<close> the host raises when a property of \<open>undefined\<close> is
    read or written (a row index beyond the rows of a grid, the first matrix of an empty list).
  \<^item> \<open>OutsideModel\<close>: the source would go on with a value the number model does not have
    (\<open>undefined\<close> read from a cell beyond its row, which arithmetic turns into \<open>NaN\<close>, or an
    array grown by a write beyond its end), or a store holds a reference to no array, which
    the host cannot produce. No grid with \<open>rows\<close> rows of \<open>cols\<close> cells gets there.
\<close>

datatype error =
  EmptyExpression | UnknownVariable string | TransposeRequiresMatrix | MissingOperand
  | PowerOperandTypeError | UnknownOperator string | MalformedExpression
  | FinalResultMustBeMatrix | ScalarMatrixAdditionUnsupported | DimensionMismatch
  | InvalidExponent | JsTypeError | OutsideModel

text \<open>
  Three things come from the host and are parameters of the model: \<open>crypto.randomUUID()\<close>,
  as the sequence of identifiers it hands out (the functions thread the count of
  identifiers drawn so far); the conversion of a number to text in a template string; and
  the rounding of a real number to the nearest number that the type \<open>number\<close> has (a binary
  floating-point number of 64 bits), which every arithmetic operation and every conversion
  of text to a number ends with.
\<close>

record runtime =
  randomUUID :: "nat \<Rightarrow> string"
  numToString :: "real \<Rightarrow> string"
  nearestDouble :: "real \<Rightarrow> real"

subsection \<open>Numbers\<close>

text \<open>
  A \<open>number\<close> is read as the real number it denotes; \<open>NaN\<close>, the infinities and the sign of
  zero are not modelled, so an operation that overflows is outside the model. An
  operation of the host computes the exact result and rounds it to the nearest \<open>number\<close>.
  The integers up to \<open>2^53\<close> in magnitude are numbers themselves, so the rounding leaves
  them as they are; everywhere else it is the parameter \<open>nearestDouble\<close>.
\<close>

definition isInteger :: "real \<Rightarrow> bool" where
  "isInteger x = (of_int \<lfloor>x\<rfloor> = x)"

definition toDouble :: "runtime \<Rightarrow> real \<Rightarrow> real" where
  "toDouble rt x =
     (if isInteger x \<and> \<bar>x\<bar> \<le> 9007199254740992 then x else nearestDouble rt x)"

text \<open>The operators \<open>+\<close>, \<open>-\<close> and \<open>*\<close> on two numbers.\<close>

definition numPlus :: "runtime \<Rightarrow> real \<Rightarrow> real \<Rightarrow> real" where
  "numPlus rt x y = toDouble rt (x + y)"

definition numMinus :: "runtime \<Rightarrow> real \<Rightarrow> real \<Rightarrow> real" where
  "numMinus rt x y = toDouble rt (x - y)"

definition numTimes :: "runtime \<Rightarrow> real \<Rightarrow> real \<Rightarrow> real" where
  "numTimes rt x y = toDouble rt (x * y)"

text \<open>
  \<open>parseFloat(x.toFixed(4))\<close>. Below \<open>10^21\<close> in magnitude \<open>toFixed(4)\<close> writes the multiple of
  \<open>1/10000\<close> nearest to \<open>x\<close>, the one of larger magnitude on a tie, and \<open>parseFloat\<close>
  reads the number nearest to it; from \<open>10^21\<close> on \<open>toFixed\<close> writes \<open>x\<close> as \<open>String(x)\<close> does,
  which \<open>parseFloat\<close> reads back as \<open>x\<close>.
\<close>

definition toFixed4 :: "runtime \<Rightarrow> real \<Rightarrow> real" where
  "toFixed4 rt x =
     (if \<bar>x\<bar> < 10 ^ 21
      then toDouble rt (sgn x * of_int \<lfloor>\<bar>x\<bar> * 10000 + 1 / 2\<rfloor> / 10000)
      else x)"

subsection \<open>Loops and array accesses\<close>

text \<open>\<open>for (let i = i0; i < n; i++) body\<close>, stopping at the first error.\<close>

function forLoop :: "nat \<Rightarrow> nat \<Rightarrow> (nat \<Rightarrow> 's \<Rightarrow> 'e + 's) \<Rightarrow> 's \<Rightarrow> 'e + 's" where
  "forLoop i n body s =
     (if i < n
      then (case body i s of Inl e \<Rightarrow> Inl e | Inr s' \<Rightarrow> forLoop (Suc i) n body s')
      else Inr s)"
  by pat_completeness auto
termination
  by (relation "measure (\<lambda>(i, n, body, s). n - i)") auto

declare forLoop.simps [simp del]

text \<open>\<open>xs.forEach(body)\<close>, stopping at the first error.\<close>

primrec forEach :: "'a list \<Rightarrow> ('a \<Rightarrow> 's \<Rightarrow> 'e + 's) \<Rightarrow> 's \<Rightarrow> 'e + 's" where
  "forEach [] body s = Inr s"
| "forEach (x # xs) body s =
     (case body x s of Inl e \<Rightarrow> Inl e | Inr s' \<Rightarrow> forEach xs body s')"

definition cellAt :: "real list list \<Rightarrow> nat \<Rightarrow> nat \<Rightarrow> error + real" where
  "cellAt d i j =
     (if length d \<le> i then Inl JsTypeError
      else if length (d ! i) \<le> j then Inl OutsideModel
      else Inr (d ! i ! j))"

definition setCell :: "real list list \<Rightarrow> nat \<Rightarrow> nat \<Rightarrow> real \<Rightarrow> error + real list list" where
  "setCell d i j v =
     (if length d \<le> i then Inl JsTypeError
      else if length (d ! i) \<le> j then Inl OutsideModel
      else Inr (d[i := (d ! i)[j := v]]))"

primrec join :: "string \<Rightarrow> string list \<Rightarrow> string" where
  "join sep [] = []"
| "join sep (x # xs) = x @ concat (map (\<lambda>y. sep @ y) xs)"

text \<open>The middle dot (U+00B7) and the modifier letter capital T (U+1D40) of result names.\<close>

definition middleDot :: string where
  "middleDot = [CHR 0xC2, CHR 0xB7]"

definition superscriptT :: string where
  "superscriptT = [CHR 0xE1, CHR 0xB5, CHR 0x80]"

subsection \<open>Primitives\<close>

definition createEmptyMatrix :: "nat \<Rightarrow> nat \<Rightarrow> real \<Rightarrow> real list list" where
  "createEmptyMatrix rows' cols' initialValue = replicate rows' (replicate cols' initialValue)"

definition addCell :: "runtime \<Rightarrow> Matrix list \<Rightarrow> nat \<Rightarrow> nat \<Rightarrow> error + real" where
  "addCell rt matrices i j =
     forEach matrices
       (\<lambda>m sumAcc. case cellAt (data m) i j of Inl e \<Rightarrow> Inl e | Inr val \<Rightarrow> Inr (numPlus rt sumAcc val)) 0"

definition addMatrices :: "runtime \<Rightarrow> nat \<Rightarrow> Matrix list \<Rightarrow> error + Matrix \<times> nat" where
  "addMatrices rt k matrices =
     (case matrices of
        [] \<Rightarrow> Inl JsTypeError
      | first # _ \<Rightarrow>
          (case forLoop 0 (rows first)
                  (\<lambda>i resultData. forLoop 0 (cols first)
                     (\<lambda>j resultData.
                        case addCell rt matrices i j of
                          Inl e \<Rightarrow> Inl e
                        | Inr sumAcc \<Rightarrow> setCell resultData i j sumAcc)
                     resultData)
                  (createEmptyMatrix (rows first) (cols first) 0) of
             Inl e \<Rightarrow> Inl e
           | Inr resultData \<Rightarrow>
               Inr (\<lparr>id' = randomUUID rt k,
                     name = (if length matrices \<le> 3
                             then ''('' @ join '' + '' (map name matrices) @ '')''
                             else ''Suma Total''),
                     rows = rows first, cols = cols first, data = resultData\<rparr>, Suc k)))"

definition subtractCell :: "runtime \<Rightarrow> Matrix list \<Rightarrow> nat \<Rightarrow> nat \<Rightarrow> error + real" where
  "subtractCell rt matrices i j =
     (case matrices of
        [] \<Rightarrow> Inl JsTypeError
      | first # others \<Rightarrow>
          (case cellAt (data first) i j of
             Inl e \<Rightarrow> Inl e
           | Inr val0 \<Rightarrow>
               forEach others
                 (\<lambda>m val. case cellAt (data m) i j of
                             Inl e \<Rightarrow> Inl e
                           | Inr subVal \<Rightarrow> Inr (numMinus rt val subVal)) val0))"

definition subtractMatrices :: "runtime \<Rightarrow> nat \<Rightarrow> Matrix list \<Rightarrow> error + Matrix \<times> nat" where
  "subtractMatrices rt k matrices =
     (case matrices of
        [] \<Rightarrow> Inl JsTypeError
      | first # _ \<Rightarrow>
          (case forLoop 0 (rows first)
                  (\<lambda>i resultData. forLoop 0 (cols first)
                     (\<lambda>j resultData.
                        case subtractCell rt matrices i j of
                          Inl e \<Rightarrow> Inl e
                        | Inr val \<Rightarrow> setCell resultData i j val)
                     resultData)
                  (createEmptyMatrix (rows first) (cols first) 0) of
             Inl e \<Rightarrow> Inl e
           | Inr resultData \<Rightarrow>
               Inr (\<lparr>id' = randomUUID rt k,
                     name = (if length matrices \<le> 3
                             then ''('' @ join '' - '' (map name matrices) @ '')''
                             else ''Resta Secuencial''),
                     rows = rows first, cols = cols first, data = resultData\<rparr>, Suc k)))"

definition multiplyCell :: "runtime \<Rightarrow> Matrix \<Rightarrow> Matrix \<Rightarrow> nat \<Rightarrow> nat \<Rightarrow> error + real" where
  "multiplyCell rt A B i j =
     forLoop 0 (cols A)
       (\<lambda>k sumAcc. case cellAt (data A) i k of
                   Inl e \<Rightarrow> Inl e
                 | Inr valA \<Rightarrow>
                     (case cellAt (data B) k j of
                        Inl e \<Rightarrow> Inl e
                      | Inr valB \<Rightarrow> Inr (numPlus rt sumAcc (numTimes rt valA valB)))) 0"

definition multiplyTwoMatrices :: "runtime \<Rightarrow> nat \<Rightarrow> Matrix \<Rightarrow> Matrix \<Rightarrow> error + Matrix \<times> nat" where
  "multiplyTwoMatrices rt k A B =
     (case forLoop 0 (rows A)
             (\<lambda>i resultData. forLoop 0 (cols B)
                (\<lambda>j resultData.
                   case multiplyCell rt A B i j of
                     Inl e \<Rightarrow> Inl e
                   | Inr sumAcc \<Rightarrow> setCell resultData i j (toFixed4 rt sumAcc))
                resultData)
             (createEmptyMatrix (rows A) (cols B) 0) of
        Inl e \<Rightarrow> Inl e
      | Inr resultData \<Rightarrow>
          Inr (\<lparr>id' = randomUUID rt k,
                name = ''('' @ name A @ '' '' @ middleDot @ '' '' @ name B @ '')'',
                rows = rows A, cols = cols B, data = resultData\<rparr>, Suc k))"

definition transposeMatrix :: "runtime \<Rightarrow> nat \<Rightarrow> Matrix \<Rightarrow> error + Matrix \<times> nat" where
  "transposeMatrix rt k matrix =
     (case forLoop 0 (rows matrix)
             (\<lambda>i resultData. forLoop 0 (cols matrix)
                (\<lambda>j resultData.
                   case cellAt (data matrix) i j of
                     Inl e \<Rightarrow> Inl e
                   | Inr v \<Rightarrow> setCell resultData j i v)
                resultData)
             (createEmptyMatrix (cols matrix) (rows matrix) 0) of
        Inl e \<Rightarrow> Inl e
      | Inr resultData \<Rightarrow>
          Inr (\<lparr>id' = randomUUID rt k, name = name matrix @ superscriptT,
                rows = cols matrix, cols = rows matrix, data = resultData\<rparr>, Suc k))"

function powerLoop ::
  "runtime \<Rightarrow> Matrix \<Rightarrow> real \<Rightarrow> nat \<Rightarrow> Matrix \<times> nat \<Rightarrow> error + Matrix \<times> nat" where
  "powerLoop rt matrix exponent i (result, k) =
     (if real i < exponent
      then (case multiplyTwoMatrices rt k result matrix of
              Inl e \<Rightarrow> Inl e
            | Inr nextResult \<Rightarrow> powerLoop rt matrix exponent (Suc i) nextResult)
      else Inr (result, k))"
  by pat_completeness auto
termination
proof (relation "measure (\<lambda>(rt, matrix, exponent, i, s). nat \<lceil>exponent\<rceil> - i)")
  fix exponent :: real and i :: nat
  fix rt :: runtime and matrix result :: Matrix and k :: nat and nextResult :: "Matrix \<times> nat"
  assume "real i < exponent"
  then have "int i < \<lceil>exponent\<rceil>" by linarith
  then have "i < nat \<lceil>exponent\<rceil>" by linarith
  then show "((rt, matrix, exponent, Suc i, nextResult), (rt, matrix, exponent, i, result, k))
      \<in> measure (\<lambda>(rt, matrix, exponent, i, s). nat \<lceil>exponent\<rceil> - i)"
    by simp
qed simp

declare powerLoop.simps [simp del]

definition powerMatrix :: "runtime \<Rightarrow> nat \<Rightarrow> Matrix \<Rightarrow> real \<Rightarrow> error + Matrix \<times> nat" where
  "powerMatrix rt k matrix exponent =
     (if rows matrix \<noteq> cols matrix then Inl DimensionMismatch
      else if \<not> isInteger exponent then Inl InvalidExponent
      else if exponent < 1 then Inl InvalidExponent
      else if exponent = 1
      then Inr (matrix\<lparr>id' := randomUUID rt k, name := name matrix @ ''^1''\<rparr>, Suc k)
      else (case powerLoop rt matrix exponent 1 (matrix, k) of
              Inl e \<Rightarrow> Inl e
            | Inr (result, k') \<Rightarrow>
                Inr (result\<lparr>name := name matrix @ ''^'' @ numToString rt exponent,
                            id' := randomUUID rt k'\<rparr>, Suc k')))"

definition scalarCell :: "runtime \<Rightarrow> OperationType \<Rightarrow> real \<Rightarrow> real \<Rightarrow> real" where
  "scalarCell rt type' val scalar =
     (let res = val;
          res = (if type' = SCALAR_ADD then numPlus rt val scalar else res);
          res = (if type' = SCALAR_SUB then numMinus rt val scalar else res);
          res = (if type' = SCALAR_MUL then numTimes rt val scalar else res)
      in toFixed4 rt res)"

definition scalarOperation ::
  "runtime \<Rightarrow> nat \<Rightarrow> Matrix \<Rightarrow> real \<Rightarrow> OperationType \<Rightarrow> Matrix \<times> nat" where
  "scalarOperation rt k matrix scalar type' =
     (\<lparr>id' = randomUUID rt k,
       name = numToString rt scalar @ ''('' @ name matrix @ '')'',
       rows = rows matrix, cols = cols matrix,
       data = map (map (\<lambda>val. scalarCell rt type' val scalar)) (data matrix)\<rparr>, Suc k)"

subsection \<open>Dispatch on the operand types\<close>

datatype 'd operand = Scalar real | Mat "'d MatrixOf"

definition genericMultiply ::
  "runtime \<Rightarrow> nat \<Rightarrow> grid operand \<Rightarrow> grid operand \<Rightarrow> error + grid operand \<times> nat" where
  "genericMultiply rt k a b =
     (case (a, b) of
        (Scalar x, Scalar y) \<Rightarrow> Inr (Scalar (numTimes rt x y), k)
      | (Scalar x, Mat mB) \<Rightarrow>
          (case scalarOperation rt k mB x SCALAR_MUL of (r, k') \<Rightarrow> Inr (Mat r, k'))
      | (Mat mA, Scalar y) \<Rightarrow>
          (case scalarOperation rt k mA y SCALAR_MUL of (r, k') \<Rightarrow> Inr (Mat r, k'))
      | (Mat mA, Mat mB) \<Rightarrow>
          if cols mA \<noteq> rows mB then Inl DimensionMismatch
          else (case multiplyTwoMatrices rt k mA mB of
                  Inl e \<Rightarrow> Inl e
                | Inr (r, k') \<Rightarrow> Inr (Mat r, k')))"

definition genericAdd ::
  "runtime \<Rightarrow> nat \<Rightarrow> grid operand \<Rightarrow> grid operand \<Rightarrow> error + grid operand \<times> nat" where
  "genericAdd rt k a b =
     (case (a, b) of
        (Scalar x, Scalar y) \<Rightarrow> Inr (Scalar (numPlus rt x y), k)
      | (Mat mA, Mat mB) \<Rightarrow>
          if rows mA \<noteq> rows mB then Inl DimensionMismatch
          else if cols mA \<noteq> cols mB then Inl DimensionMismatch
          else (case addMatrices rt k [mA, mB] of
                  Inl e \<Rightarrow> Inl e
                | Inr (r, k') \<Rightarrow> Inr (Mat r, k'))
      | _ \<Rightarrow> Inl ScalarMatrixAdditionUnsupported)"

definition genericSubtract ::
  "runtime \<Rightarrow> nat \<Rightarrow> grid operand \<Rightarrow> grid operand \<Rightarrow> error + grid operand \<times> nat" where
  "genericSubtract rt k a b =
     (case (a, b) of
        (Scalar x, Scalar y) \<Rightarrow> Inr (Scalar (numMinus rt x y), k)
      | (Mat mA, Mat mB) \<Rightarrow>
          if rows mA \<noteq> rows mB then Inl DimensionMismatch
          else if cols mA \<noteq> cols mB then Inl DimensionMismatch
          else (case subtractMatrices rt k [mA, mB] of
                  Inl e \<Rightarrow> Inl e
                | Inr (r, k') \<Rightarrow> Inr (Mat r, k'))
      | _ \<Rightarrow> Inl ScalarMatrixAdditionUnsupported)"

section \<open>Variable resolver\<close>

text \<open>
  \<open>matrixMap\<close> is an object used as a dictionary. It is an association list here, because
  the evaluator also enumerates its values. Every key the engine stores or looks up is an
  upper-cased string or a single character code, so none meets a property that a
  JavaScript object inherits. A stored value is a matrix object, which is never falsy.
\<close>

type_synonym 'd matrixMap = "(string \<times> 'd MatrixOf) list"

definition registerMatrix :: "nat \<times> 'd MatrixOf \<Rightarrow> 'd matrixMap \<Rightarrow> 'd matrixMap" where
  "registerMatrix entry matrixMap =
     (let idx = fst entry; m = snd entry;
          byName = AList.update (toUpperCase (name m)) m matrixMap;
          shortName = toUpperCase (trim (drop 7 (name m)));
          byAlias = (if take 7 (toUpperCase (name m)) = ''MATRIZ ''
                     then (if shortName = [] then byName else AList.update shortName m byName)
                     else byName);
          charCode = fromCharCode (65 + idx)
      in case map_of byAlias charCode of
           None \<Rightarrow> AList.update charCode m byAlias
         | Some _ \<Rightarrow> byAlias)"

definition buildMatrixMap :: "'d MatrixOf list \<Rightarrow> 'd matrixMap" where
  "buildMatrixMap availableMatrices = fold registerMatrix (enumerate 0 availableMatrices) []"

section \<open>Evaluator\<close>

text \<open>
  \<open>parseFloat\<close> on the lexeme of a \<open>NUMBER\<close> token, which is \<open>digits\<close> or \<open>digits.digits\<close>: the
  number nearest to the decimal numeral.
\<close>

definition digitsToNat :: "string \<Rightarrow> nat" where
  "digitsToNat ds = foldl (\<lambda>n c. 10 * n + (of_char c - 48)) 0 ds"

definition parseFloat :: "runtime \<Rightarrow> string \<Rightarrow> real" where
  "parseFloat rt s =
     (let intPart = takeWhile isDigit s; rest = dropWhile isDigit s in
      toDouble rt
        (case rest of
           [] \<Rightarrow> real (digitsToNat intPart)
         | d # fracPart \<Rightarrow>
             if d = CHR ''.''
             then real (digitsToNat intPart) +
                  real (digitsToNat (takeWhile isDigit fracPart)) /
                    10 ^ length (takeWhile isDigit fracPart)
             else real (digitsToNat intPart)))"

record 'd EvalState =
  stack :: "'d operand list"
  executionTrace :: "'d MatrixOf list"
  uuidCount :: nat

text \<open>\<open>stack.pop()\<close>: \<open>undefined\<close> (here \<open>None\<close>) on the empty array.\<close>

definition pop :: "'a list \<Rightarrow> 'a option \<times> 'a list" where
  "pop xs = (if xs = [] then (None, []) else (Some (last xs), butlast xs))"

definition pushResult :: "'d matrixMap \<Rightarrow> 'd operand \<Rightarrow> 'd EvalState \<Rightarrow> 'd EvalState" where
  "pushResult matrixMap val st =
     (case val of
        Mat m \<Rightarrow>
          if list_ex (\<lambda>inp. id' inp = id' m) (map snd matrixMap)
          then st\<lparr>stack := stack st @ [val]\<rparr>
          else st\<lparr>executionTrace := executionTrace st @ [m], stack := stack st @ [val]\<rparr>
      | Scalar x \<Rightarrow> st\<lparr>stack := stack st @ [val]\<rparr>)"

text \<open>The \<open>switch\<close> over the symbol of a binary operator.\<close>

definition applyOperator ::
  "runtime \<Rightarrow> nat \<Rightarrow> string \<Rightarrow> grid operand \<Rightarrow> grid operand \<Rightarrow> error + grid operand \<times> nat"
  where
  "applyOperator rt k op a b =
     (if op = ''+'' then genericAdd rt k a b
      else if op = ''-'' then genericSubtract rt k a b
      else if op = ''*'' then genericMultiply rt k a b
      else if op = ''^'' then
        (case (a, b) of
           (Mat m, Scalar x) \<Rightarrow>
             (case powerMatrix rt k m x of
                Inl e \<Rightarrow> Inl e
              | Inr (r, k') \<Rightarrow> Inr (Mat r, k'))
         | _ \<Rightarrow> Inl PowerOperandTypeError)
      else Inl (UnknownOperator op))"

definition evalToken ::
  "runtime \<Rightarrow> grid matrixMap \<Rightarrow> Token \<Rightarrow> grid EvalState \<Rightarrow> error + grid EvalState" where
  "evalToken rt matrixMap token st =
     (if type token = NUMBER
      then Inr (st\<lparr>stack := stack st @ [Scalar (parseFloat rt (value token))]\<rparr>)
      else if type token = IDENTIFIER then
        (case map_of matrixMap (toUpperCase (value token)) of
           None \<Rightarrow> Inl (UnknownVariable (value token))
         | Some mat \<Rightarrow> Inr (st\<lparr>stack := stack st @ [Mat mat]\<rparr>))
      else if type token = OPERATOR then
        (if value token = [CHR 0x27] then
           (case pop (stack st) of
              (None, rest) \<Rightarrow> Inl TransposeRequiresMatrix
            | (Some (Scalar x), rest) \<Rightarrow> Inl TransposeRequiresMatrix
            | (Some (Mat a), rest) \<Rightarrow>
                (case transposeMatrix rt (uuidCount st) a of
                   Inl e \<Rightarrow> Inl e
                 | Inr (r, k') \<Rightarrow>
                     Inr (pushResult matrixMap (Mat r) (st\<lparr>stack := rest, uuidCount := k'\<rparr>))))
         else
           (case pop (stack st) of
              (b, rest) \<Rightarrow>
                (case pop rest of
                   (a, rest') \<Rightarrow>
                     (case (a, b) of
                        (Some a', Some b') \<Rightarrow>
                          (case applyOperator rt (uuidCount st) (value token) a' b' of
                             Inl e \<Rightarrow> Inl e
                           | Inr (r, k') \<Rightarrow>
                               Inr (pushResult matrixMap r
                                      (st\<lparr>stack := rest', uuidCount := k'\<rparr>)))
                      | _ \<Rightarrow> Inl MissingOperand))))
      else Inr st)"

definition evaluateExpression :: "runtime \<Rightarrow> string \<Rightarrow> Matrix list \<Rightarrow> error + Matrix list" where
  "evaluateExpression rt expression availableMatrices =
     (if trim expression = [] then Inl EmptyExpression
      else
        (let matrixMap = buildMatrixMap availableMatrices;
             tokens = tokenize expression;
             rpn = toRPN tokens
         in case forEach rpn (evalToken rt matrixMap)
                   \<lparr>stack = [], executionTrace = [], uuidCount = 0\<rparr> of
              Inl e \<Rightarrow> Inl e
            | Inr st \<Rightarrow>
                if length (stack st) \<noteq> 1 then Inl MalformedExpression
                else (case stack st ! 0 of
                        Scalar x \<Rightarrow> Inl FinalResultMustBeMatrix
                      | Mat finalResult \<Rightarrow> Inr (executionTrace st))))"

section \<open>Tokenizer and parser on the sample expression\<close>

lemma tokenize_sample:
  "tokenize ''3*A'-B^2'' =
     [\<lparr>type = NUMBER, value = ''3''\<rparr>, \<lparr>type = OPERATOR, value = ''*''\<rparr>,
      \<lparr>type = IDENTIFIER, value = ''A''\<rparr>, \<lparr>type = OPERATOR, value = [CHR 0x27]\<rparr>,
      \<lparr>type = OPERATOR, value = ''-''\<rparr>, \<lparr>type = IDENTIFIER, value = ''B''\<rparr>,
      \<lparr>type = OPERATOR, value = ''^''\<rparr>, \<lparr>type = NUMBER, value = ''2''\<rparr>]"
  by (simp add: scanNumber_def isDigit_def isLetter_def isOpChar_def isSpace_def)

lemma toRPN_sample:
  "toRPN
     [\<lparr>type = NUMBER, value = ''3''\<rparr>, \<lparr>type = OPERATOR, value = ''*''\<rparr>,
      \<lparr>type = IDENTIFIER, value = ''A''\<rparr>, \<lparr>type = OPERATOR, value = [CHR 0x27]\<rparr>,
      \<lparr>type = OPERATOR, value = ''-''\<rparr>, \<lparr>type = IDENTIFIER, value = ''B''\<rparr>,
      \<lparr>type = OPERATOR, value = ''^''\<rparr>, \<lparr>type = NUMBER, value = ''2''\<rparr>] =
     [\<lparr>type = NUMBER, value = ''3''\<rparr>, \<lparr>type = IDENTIFIER, value = ''A''\<rparr>,
      \<lparr>type = OPERATOR, value = [CHR 0x27]\<rparr>, \<lparr>type = OPERATOR, value = ''*''\<rparr>,
      \<lparr>type = IDENTIFIER, value = ''B''\<rparr>, \<lparr>type = NUMBER, value = ''2''\<rparr>,
      \<lparr>type = OPERATOR, value = ''^''\<rparr>, \<lparr>type = OPERATOR, value = ''-''\<rparr>]"
  by (simp add: toRPN_def rpnStep_def precedence_def precGe_def)

lemma popOperators_caret:
  "value token = ''^'' \<Longrightarrow> popOperators token st = st"
  by (cases st) simp

text \<open>
  Claim C2. The tokenizer splits \<open>3*A'-B^2\<close> into the eight tokens \<open>3\<close>, \<open>*\<close>, \<open>A\<close>, \<open>'\<close>,
  \<open>-\<close>, \<open>B\<close>, \<open>^\<close>, \<open>2\<close> of kinds number, operator, identifier, operator, operator,
  identifier, operator, number; the parser turns them into the postfix sequence \<open>3\<close>, \<open>A\<close>,
  \<open>'\<close>, \<open>*\<close>, \<open>B\<close>, \<open>2\<close>, \<open>^\<close>, \<open>-\<close>; and on an incoming \<open>^\<close> the parser, whatever the output
  queue and the operator stack hold, pops nothing and pushes the token.
\<close>

theorem tokenize_toRPN_sample_and_caret_never_pops:
  "tokenize ''3*A'-B^2'' =
     [\<lparr>type = NUMBER, value = ''3''\<rparr>, \<lparr>type = OPERATOR, value = ''*''\<rparr>,
      \<lparr>type = IDENTIFIER, value = ''A''\<rparr>, \<lparr>type = OPERATOR, value = [CHR 0x27]\<rparr>,
      \<lparr>type = OPERATOR, value = ''-''\<rparr>, \<lparr>type = IDENTIFIER, value = ''B''\<rparr>,
      \<lparr>type = OPERATOR, value = ''^''\<rparr>, \<lparr>type = NUMBER, value = ''2''\<rparr>] \<and>
   toRPN (tokenize ''3*A'-B^2'') =
     [\<lparr>type = NUMBER, value = ''3''\<rparr>, \<lparr>type = IDENTIFIER, value = ''A''\<rparr>,
      \<lparr>type = OPERATOR, value = [CHR 0x27]\<rparr>, \<lparr>type = OPERATOR, value = ''*''\<rparr>,
      \<lparr>type = IDENTIFIER, value = ''B''\<rparr>, \<lparr>type = NUMBER, value = ''2''\<rparr>,
      \<lparr>type = OPERATOR, value = ''^''\<rparr>, \<lparr>type = OPERATOR, value = ''-''\<rparr>] \<and>
   popOperators \<lparr>type = OPERATOR, value = ''^''\<rparr> (outputQueue, operatorStack) =
     (outputQueue, operatorStack) \<and>
   rpnStep \<lparr>type = OPERATOR, value = ''^''\<rparr> (outputQueue, operatorStack) =
     (outputQueue, operatorStack @ [\<lparr>type = OPERATOR, value = ''^''\<rparr>])"
proof -
  have "popOperators \<lparr>type = OPERATOR, value = ''^''\<rparr> (outputQueue, operatorStack) =
      (outputQueue, operatorStack)"
    by (rule popOperators_caret) simp
  moreover from this
  have "rpnStep \<lparr>type = OPERATOR, value = ''^''\<rparr> (outputQueue, operatorStack) =
      (outputQueue, operatorStack @ [\<lparr>type = OPERATOR, value = ''^''\<rparr>])"
    by (simp add: rpnStep_def)
  ultimately show ?thesis
    by (simp only: tokenize_sample toRPN_sample simp_thms)
qed

text \<open>
  The stack of the witness holds a transpose operator, of precedence 4, above a product:
  any other incoming operator would pop both.
\<close>

theorem caret_never_pops_witness:
  "rpnStep \<lparr>type = OPERATOR, value = ''^''\<rparr>
     ([\<lparr>type = IDENTIFIER, value = ''A''\<rparr>],
      [\<lparr>type = OPERATOR, value = ''*''\<rparr>, \<lparr>type = OPERATOR, value = [CHR 0x27]\<rparr>]) =
     ([\<lparr>type = IDENTIFIER, value = ''A''\<rparr>],
      [\<lparr>type = OPERATOR, value = ''*''\<rparr>, \<lparr>type = OPERATOR, value = [CHR 0x27]\<rparr>,
       \<lparr>type = OPERATOR, value = ''^''\<rparr>]) \<and>
   rpnStep \<lparr>type = OPERATOR, value = ''+''\<rparr>
     ([\<lparr>type = IDENTIFIER, value = ''A''\<rparr>],
      [\<lparr>type = OPERATOR, value = ''*''\<rparr>, \<lparr>type = OPERATOR, value = [CHR 0x27]\<rparr>]) =
     ([\<lparr>type = IDENTIFIER, value = ''A''\<rparr>, \<lparr>type = OPERATOR, value = [CHR 0x27]\<rparr>,
       \<lparr>type = OPERATOR, value = ''*''\<rparr>],
      [\<lparr>type = OPERATOR, value = ''+''\<rparr>])"
  using tokenize_toRPN_sample_and_caret_never_pops
    [of "[\<lparr>type = IDENTIFIER, value = ''A''\<rparr>]"
        "[\<lparr>type = OPERATOR, value = ''*''\<rparr>, \<lparr>type = OPERATOR, value = [CHR 0x27]\<rparr>]"]
  by (simp add: rpnStep_def precedence_def precGe_def)

section \<open>Sample inputs\<close>

text \<open>
  A runtime whose identifiers are \<open>u\<close>, \<open>ux\<close>, \<open>uxx\<close>, ... and two matrices named \<open>A\<close> and \<open>B\<close>,
  for the concrete evaluations below.
\<close>

definition sampleUUID :: "nat \<Rightarrow> string" where
  "sampleUUID n = CHR ''u'' # replicate n (CHR ''x'')"

definition sampleNumToString :: "real \<Rightarrow> string" where
  "sampleNumToString x =
     (if x = 2 then ''2'' else if x = 3 then ''3'' else if x = 1 / 2 then ''0.5'' else ''?'')"

definition sampleRuntime :: runtime where
  "sampleRuntime =
     \<lparr>randomUUID = sampleUUID, numToString = sampleNumToString, nearestDouble = (\<lambda>x. x)\<rparr>"

definition sampleA :: Matrix where
  "sampleA = \<lparr>id' = ''a'', name = ''A'', rows = 2, cols = 2, data = [[1, 2], [3, 4]]\<rparr>"

definition sampleB :: Matrix where
  "sampleB = \<lparr>id' = ''b'', name = ''B'', rows = 2, cols = 2, data = [[5, 6], [7, 8]]\<rparr>"

section \<open>Integers in the arithmetic of the host\<close>

text \<open>
  On integers up to \<open>2^53\<close> in magnitude nothing is rounded, whatever the host: not by an
  operation whose exact result is such an integer, and not by \<open>parseFloat(x.toFixed(4))\<close>.
\<close>

lemma toDouble_integer:
  assumes "isInteger x" and "\<bar>x\<bar> \<le> 9007199254740992"
  shows "toDouble rt x = x"
  using assms by (simp add: toDouble_def)

lemma isInteger_numeral: "isInteger 0" "isInteger 1" "isInteger (numeral n)"
  "isInteger (- numeral n)"
  by (simp_all add: isInteger_def)

lemma toDouble_numeral:
  "toDouble rt 0 = 0" "toDouble rt 1 = 1"
  "numeral n \<le> (9007199254740992::real) \<Longrightarrow> toDouble rt (numeral n) = numeral n"
  "numeral n \<le> (9007199254740992::real) \<Longrightarrow> toDouble rt (- numeral n) = - numeral n"
  by (simp_all add: toDouble_def isInteger_def)

lemma toFixed4_integer:
  assumes "isInteger x" and "\<bar>x\<bar> \<le> 9007199254740992"
  shows "toFixed4 rt x = x"
proof -
  define m where "m = \<lfloor>x\<rfloor>"
  from assms(1) have x: "x = of_int m" unfolding isInteger_def m_def by (rule sym)
  have "\<bar>x\<bar> * 10000 + 1 / 2 = of_int (\<bar>m\<bar> * 10000) + 1 / 2" by (simp add: x)
  moreover have "\<lfloor>of_int (\<bar>m\<bar> * 10000) + (1 / 2 :: real)\<rfloor> = \<bar>m\<bar> * 10000"
    by (rule floor_unique) simp_all
  ultimately have "\<lfloor>\<bar>x\<bar> * 10000 + 1 / 2\<rfloor> = \<bar>m\<bar> * 10000"
    by (simp only:)
  then have "sgn x * of_int \<lfloor>\<bar>x\<bar> * 10000 + 1 / 2\<rfloor> / 10000 = sgn x * \<bar>x\<bar>"
    by (simp add: x)
  also have "\<dots> = x" by (simp add: sgn_mult_abs)
  finally have rounded: "sgn x * of_int \<lfloor>\<bar>x\<bar> * 10000 + 1 / 2\<rfloor> / 10000 = x" .
  from assms(2) have "\<bar>x\<bar> < 10 ^ 21" by simp
  then show ?thesis
    by (simp only: toFixed4_def rounded if_True toDouble_integer [OF assms])
qed

lemma toFixed4_numeral:
  "numeral n \<le> (9007199254740992::real) \<Longrightarrow> toFixed4 rt (numeral n) = numeral n"
  by (rule toFixed4_integer) (simp_all add: isInteger_def)

section \<open>Errors of the evaluator\<close>

lemma forEach_append:
  "forEach (xs @ ys) body s =
     (case forEach xs body s of Inl e \<Rightarrow> Inl e | Inr s' \<Rightarrow> forEach ys body s')"
  by (induction xs arbitrary: s) (auto split: sum.splits)

lemma evalToken_transpose_empty:
  "stack st = [] \<Longrightarrow>
   evalToken rt matrixMap \<lparr>type = OPERATOR, value = [CHR 0x27]\<rparr> st = Inl TransposeRequiresMatrix"
  by (simp add: evalToken_def pop_def)

text \<open>
  Claim C3, as the source has it. Whenever an evaluation of a postfix sequence reaches the
  transpose operator \<open>'\<close> with an empty operand stack (after any tokens \<open>before\<close> that
  evaluate to such a state, and whatever follows), it fails with
  \<open>TransposeRequiresMatrix\<close>: the guard of the transpose case tests the popped value for
  \<open>undefined\<close> and for a number at once and throws the one message.
\<close>

theorem transpose_on_empty_stack_fails_TransposeRequiresMatrix:
  assumes "forEach before (evalToken rt matrixMap) st0 = Inr st"
    and "stack st = []"
  shows "forEach (before @ \<lparr>type = OPERATOR, value = [CHR 0x27]\<rparr> # rest)
           (evalToken rt matrixMap) st0 = Inl TransposeRequiresMatrix"
proof -
  have "forEach (\<lparr>type = OPERATOR, value = [CHR 0x27]\<rparr> # rest) (evalToken rt matrixMap) st =
      Inl TransposeRequiresMatrix"
    using assms(2) by (simp add: evalToken_transpose_empty)
  with assms(1) show ?thesis
    by (simp add: forEach_append)
qed

theorem transpose_on_empty_stack_witness:
  "forEach ([] @ [\<lparr>type = OPERATOR, value = [CHR 0x27]\<rparr>])
     (evalToken sampleRuntime (buildMatrixMap [sampleA]))
     \<lparr>stack = [], executionTrace = [], uuidCount = 0\<rparr> = Inl TransposeRequiresMatrix"
  using transpose_on_empty_stack_fails_TransposeRequiresMatrix
    [of "[]" sampleRuntime "buildMatrixMap [sampleA]"
        "\<lparr>stack = [], executionTrace = [], uuidCount = 0\<rparr>"
        "\<lparr>stack = [], executionTrace = [], uuidCount = 0\<rparr>" "[]"]
  by simp

text \<open>
  The claim as stated, with \<open>MissingOperand\<close>, fails on the expression that is a lone \<open>'\<close>.
\<close>

theorem transpose_on_empty_stack_counterexample:
  "evaluateExpression sampleRuntime [CHR 0x27] [sampleA] = Inl TransposeRequiresMatrix \<and>
   evaluateExpression sampleRuntime [CHR 0x27] [sampleA] \<noteq> Inl MissingOperand"
  by (simp add: evaluateExpression_def trim_def isSpace_def isDigit_def isLetter_def
      isOpChar_def toRPN_def rpnStep_def evalToken_def pop_def)

subsection \<open>A leading minus\<close>

lemma isLetter_not_isDigit: "isLetter c \<Longrightarrow> \<not> isDigit c"
  by (auto simp: isLetter_def isDigit_def)

lemma tokenize_letters:
  assumes "x \<noteq> []" and "list_all isLetter x"
  shows "tokenize x = [\<lparr>type = IDENTIFIER, value = x\<rparr>]"
proof (cases x)
  case Nil
  with assms(1) show ?thesis by simp
next
  case (Cons c cs)
  with assms(2) have c: "isLetter c" and cs: "list_all isLetter cs" by simp_all
  from cs have "takeWhile isLetter cs = cs" and "dropWhile isLetter cs = []"
    by (simp_all add: list_all_iff)
  with c Cons show ?thesis
    by (simp add: isLetter_not_isDigit del: dropWhile_eq_Nil_conv)
qed

lemma tokenize_minus_letters:
  assumes "x \<noteq> []" and "list_all isLetter x"
  shows "tokenize (CHR ''-'' # x) =
    [\<lparr>type = OPERATOR, value = ''-''\<rparr>, \<lparr>type = IDENTIFIER, value = x\<rparr>]"
  using tokenize_letters [OF assms]
  by (simp add: isDigit_def isLetter_def isOpChar_def)

lemma toRPN_minus_identifier:
  "toRPN [\<lparr>type = OPERATOR, value = ''-''\<rparr>, \<lparr>type = IDENTIFIER, value = x\<rparr>] =
     [\<lparr>type = IDENTIFIER, value = x\<rparr>, \<lparr>type = OPERATOR, value = ''-''\<rparr>]"
  by (simp add: toRPN_def rpnStep_def)

lemma trim_not_empty: "\<not> isSpace c \<Longrightarrow> trim (c # cs) \<noteq> []"
  by (auto simp: trim_def dropWhile_eq_Nil_conv)

text \<open>
  Claim C10, as the source has it. For an identifier \<open>x\<close> (one or more letters) that the
  resolver knows, the expression that consists of \<open>-\<close> followed by \<open>x\<close> fails with
  \<open>MissingOperand\<close>: the minus is parsed as a binary operator and comes after the identifier
  in the postfix sequence, the identifier leaves one matrix on the stack, and the minus
  then finds one operand where it pops two.
\<close>

theorem leading_minus_fails_MissingOperand:
  assumes "x \<noteq> []" and "list_all isLetter x"
    and "map_of (buildMatrixMap availableMatrices) (toUpperCase x) = Some m"
  shows "toRPN (tokenize (CHR ''-'' # x)) =
           [\<lparr>type = IDENTIFIER, value = x\<rparr>, \<lparr>type = OPERATOR, value = ''-''\<rparr>] \<and>
         forEach [\<lparr>type = IDENTIFIER, value = x\<rparr>]
           (evalToken rt (buildMatrixMap availableMatrices))
           \<lparr>stack = [], executionTrace = [], uuidCount = 0\<rparr> =
           Inr \<lparr>stack = [Mat m], executionTrace = [], uuidCount = 0\<rparr> \<and>
         evalToken rt (buildMatrixMap availableMatrices) \<lparr>type = OPERATOR, value = ''-''\<rparr>
           \<lparr>stack = [Mat m], executionTrace = [], uuidCount = 0\<rparr> = Inl MissingOperand \<and>
         evaluateExpression rt (CHR ''-'' # x) availableMatrices = Inl MissingOperand"
proof -
  have nonblank: "trim (CHR ''-'' # x) \<noteq> []"
    by (rule trim_not_empty) (simp add: isSpace_def)
  have rpn: "toRPN (tokenize (CHR ''-'' # x)) =
      [\<lparr>type = IDENTIFIER, value = x\<rparr>, \<lparr>type = OPERATOR, value = ''-''\<rparr>]"
    by (simp only: tokenize_minus_letters [OF assms(1,2)] toRPN_minus_identifier)
  have pushed: "forEach [\<lparr>type = IDENTIFIER, value = x\<rparr>]
          (evalToken rt (buildMatrixMap availableMatrices))
          \<lparr>stack = [], executionTrace = [], uuidCount = 0\<rparr> =
        Inr \<lparr>stack = [Mat m], executionTrace = [], uuidCount = 0\<rparr>"
    using assms(3) by (simp add: evalToken_def)
  have minus: "evalToken rt (buildMatrixMap availableMatrices)
          \<lparr>type = OPERATOR, value = ''-''\<rparr>
          \<lparr>stack = [Mat m], executionTrace = [], uuidCount = 0\<rparr> = Inl MissingOperand"
    by (simp add: evalToken_def pop_def)
  have "forEach [\<lparr>type = IDENTIFIER, value = x\<rparr>, \<lparr>type = OPERATOR, value = ''-''\<rparr>]
          (evalToken rt (buildMatrixMap availableMatrices))
          \<lparr>stack = [], executionTrace = [], uuidCount = 0\<rparr> = Inl MissingOperand"
    using assms(3) by (simp add: evalToken_def pop_def)
  with nonblank rpn have "evaluateExpression rt (CHR ''-'' # x) availableMatrices =
      Inl MissingOperand"
    by (simp add: evaluateExpression_def)
  with rpn pushed minus show ?thesis by simp
qed

lemma char_of_eq_iff: "char_of (n::nat) = c \<longleftrightarrow> n mod 256 = of_char c"
  by (metis of_char_of char_of_char char_of_mod_256)

lemma fromCharCode_65: "fromCharCode 65 = ''A''"
  by (simp add: fromCharCode_def char_of_eq_iff)

lemma fromCharCode_66: "fromCharCode 66 = ''B''"
  by (simp add: fromCharCode_def char_of_eq_iff)

lemma buildMatrixMap_sampleA: "buildMatrixMap [sampleA] = [(''A'', sampleA)]"
  by (simp add: buildMatrixMap_def registerMatrix_def sampleA_def toUpperCase_def
      toUpperChar_def fromCharCode_65)

theorem leading_minus_witness:
  "evaluateExpression sampleRuntime ''-a'' [sampleA] = Inl MissingOperand"
proof -
  have "map_of (buildMatrixMap [sampleA]) (toUpperCase ''a'') = Some sampleA"
    by (simp add: buildMatrixMap_sampleA toUpperCase_def toUpperChar_def)
  moreover have "list_all isLetter ''a''"
    by (simp add: isLetter_def)
  ultimately show ?thesis
    using leading_minus_fails_MissingOperand [of "''a''" "[sampleA]" sampleA sampleRuntime]
    by simp
qed

text \<open>
  The claim as stated, for every expression that begins with \<open>-\<close> and a known identifier,
  fails on \<open>-A B\<close>: its tokens are \<open>-\<close>, \<open>A\<close>, \<open>B\<close>, the postfix sequence is \<open>A B -\<close>, and the
  evaluation returns the difference of the two matrices.
\<close>

theorem leading_minus_counterexample:
  "map_of (buildMatrixMap [sampleA, sampleB]) (toUpperCase ''A'') = Some sampleA \<and>
   toRPN (tokenize ''-A B'') =
     [\<lparr>type = IDENTIFIER, value = ''A''\<rparr>, \<lparr>type = IDENTIFIER, value = ''B''\<rparr>,
      \<lparr>type = OPERATOR, value = ''-''\<rparr>] \<and>
   evaluateExpression sampleRuntime ''-A B'' [sampleA, sampleB] =
     Inr [\<lparr>id' = ''u'', name = ''(A - B)'', rows = 2, cols = 2,
           data = [[- 4, - 4], [- 4, - 4]]\<rparr>] \<and>
   evaluateExpression sampleRuntime ''-A B'' [sampleA, sampleB] \<noteq> Inl MissingOperand"
proof -
  have upper: "toUpperCase ''A'' = ''A''" "toUpperCase ''B'' = ''B''"
    by (simp_all add: toUpperCase_def toUpperChar_def)
  have resolved: "buildMatrixMap [sampleA, sampleB] = [(''A'', sampleA), (''B'', sampleB)]"
    by (simp add: buildMatrixMap_def registerMatrix_def sampleA_def sampleB_def upper
        fromCharCode_65 fromCharCode_66)
  have rpn: "toRPN (tokenize ''-A B'') =
     [\<lparr>type = IDENTIFIER, value = ''A''\<rparr>, \<lparr>type = IDENTIFIER, value = ''B''\<rparr>,
      \<lparr>type = OPERATOR, value = ''-''\<rparr>]"
    by (simp add: isDigit_def isLetter_def isOpChar_def isSpace_def toRPN_def rpnStep_def)
  have difference: "subtractMatrices sampleRuntime 0 [sampleA, sampleB] =
      Inr (\<lparr>id' = ''u'', name = ''(A - B)'', rows = 2, cols = 2,
            data = [[- 4, - 4], [- 4, - 4]]\<rparr>, Suc 0)"
    by (subst forLoop.simps | simp add: subtractMatrices_def subtractCell_def cellAt_def
        setCell_def createEmptyMatrix_def sampleA_def sampleB_def sampleRuntime_def
        sampleUUID_def numeral_2_eq_2 numMinus_def toDouble_numeral)+
  have run: "forEach
       [\<lparr>type = IDENTIFIER, value = ''A''\<rparr>, \<lparr>type = IDENTIFIER, value = ''B''\<rparr>,
        \<lparr>type = OPERATOR, value = ''-''\<rparr>]
       (evalToken sampleRuntime [(''A'', sampleA), (''B'', sampleB)])
       \<lparr>stack = [], executionTrace = [], uuidCount = 0\<rparr> =
     Inr \<lparr>stack = [Mat \<lparr>id' = ''u'', name = ''(A - B)'', rows = 2, cols = 2,
                           data = [[- 4, - 4], [- 4, - 4]]\<rparr>],
          executionTrace = [\<lparr>id' = ''u'', name = ''(A - B)'', rows = 2, cols = 2,
                             data = [[- 4, - 4], [- 4, - 4]]\<rparr>],
          uuidCount = Suc 0\<rparr>"
    using difference
    by (simp add: evalToken_def upper pop_def applyOperator_def genericSubtract_def
        pushResult_def)
      (simp add: sampleA_def sampleB_def)
  have nonblank: "trim ''-A B'' \<noteq> []"
    by (rule trim_not_empty) (simp add: isSpace_def)
  have "evaluateExpression sampleRuntime ''-A B'' [sampleA, sampleB] =
     Inr [\<lparr>id' = ''u'', name = ''(A - B)'', rows = 2, cols = 2,
           data = [[- 4, - 4], [- 4, - 4]]\<rparr>]"
    unfolding evaluateExpression_def Let_def rpn resolved run
    using nonblank by simp
  with rpn resolved upper show ?thesis by simp
qed

section \<open>Scalars against matrices\<close>

lemma toFixed4_nearest:
  assumes "\<bar>x\<bar> < 10 ^ 21"
  shows "\<exists>n::int. \<bar>x * 10000 - of_int n\<bar> \<le> 1 / 2 \<and>
           toFixed4 rt x = toDouble rt (of_int n / 10000)"
proof -
  define n where "n = \<lfloor>\<bar>x\<bar> * 10000 + 1 / 2\<rfloor>"
  have lower: "of_int n \<le> \<bar>x\<bar> * 10000 + 1 / 2"
    unfolding n_def by (rule of_int_floor_le)
  have upper: "\<bar>x\<bar> * 10000 + 1 / 2 < of_int n + 1"
    unfolding n_def by linarith
  consider "x < 0" | "x = 0" | "0 < x" by linarith
  then show ?thesis
  proof cases
    case 1
    with assms have "toFixed4 rt x = toDouble rt (of_int (- n) / 10000)"
      by (simp add: toFixed4_def n_def)
    moreover from 1 lower upper have "\<bar>x * 10000 - of_int (- n)\<bar> \<le> 1 / 2"
      unfolding of_int_minus by linarith
    ultimately show ?thesis by blast
  next
    case 2
    then have "toFixed4 rt x = toDouble rt (of_int 0 / 10000)" by (simp add: toFixed4_def)
    moreover from 2 have "\<bar>x * 10000 - of_int 0\<bar> \<le> 1 / 2" by simp
    ultimately show ?thesis by blast
  next
    case 3
    with assms have "toFixed4 rt x = toDouble rt (of_int n / 10000)"
      by (simp add: toFixed4_def n_def)
    moreover from 3 lower upper have "\<bar>x * 10000 - of_int n\<bar> \<le> 1 / 2"
      by linarith
    ultimately show ?thesis by blast
  qed
qed

text \<open>
  Claim C5. For every scalar \<open>s\<close> and matrix \<open>M\<close>, the operators \<open>+\<close> and \<open>-\<close> applied to
  the pair in either order fail with \<open>ScalarMatrixAdditionUnsupported\<close>, and \<open>*\<close> applied
  to the pair in either order succeeds with a new matrix of the shape of \<open>M\<close> whose cells
  are those of \<open>M\<close> times \<open>s\<close>, each passed through the rounding to four decimals: the
  number nearest to \<open>n/10000\<close>, for an integer \<open>n\<close> nearest to the ten-thousandfold of the
  product (for a product below \<open>10^21\<close> in magnitude; a larger one has no decimals).
\<close>

theorem scalar_with_matrix_add_fails_multiply_scales:
  "applyOperator rt k ''+'' (Scalar s) (Mat M) = Inl ScalarMatrixAdditionUnsupported \<and>
   applyOperator rt k ''+'' (Mat M) (Scalar s) = Inl ScalarMatrixAdditionUnsupported \<and>
   applyOperator rt k ''-'' (Scalar s) (Mat M) = Inl ScalarMatrixAdditionUnsupported \<and>
   applyOperator rt k ''-'' (Mat M) (Scalar s) = Inl ScalarMatrixAdditionUnsupported \<and>
   applyOperator rt k ''*'' (Scalar s) (Mat M) =
     Inr (Mat \<lparr>id' = randomUUID rt k, name = numToString rt s @ ''('' @ name M @ '')'',
               rows = rows M, cols = cols M,
               data = map (map (\<lambda>val. toFixed4 rt (numTimes rt val s))) (data M)\<rparr>, Suc k) \<and>
   applyOperator rt k ''*'' (Mat M) (Scalar s) =
     Inr (Mat \<lparr>id' = randomUUID rt k, name = numToString rt s @ ''('' @ name M @ '')'',
               rows = rows M, cols = cols M,
               data = map (map (\<lambda>val. toFixed4 rt (numTimes rt val s))) (data M)\<rparr>, Suc k) \<and>
   (\<bar>x\<bar> < 10 ^ 21 \<longrightarrow>
      (\<exists>n::int. \<bar>x * 10000 - of_int n\<bar> \<le> 1 / 2 \<and>
         toFixed4 rt x = toDouble rt (of_int n / 10000))) \<and>
   (\<not> \<bar>x\<bar> < 10 ^ 21 \<longrightarrow> toFixed4 rt x = x)"
proof -
  have add: "genericAdd rt k (Scalar s) (Mat M) = Inl ScalarMatrixAdditionUnsupported"
    "genericAdd rt k (Mat M) (Scalar s) = Inl ScalarMatrixAdditionUnsupported"
    by (simp_all add: genericAdd_def)
  have sub: "genericSubtract rt k (Scalar s) (Mat M) = Inl ScalarMatrixAdditionUnsupported"
    "genericSubtract rt k (Mat M) (Scalar s) = Inl ScalarMatrixAdditionUnsupported"
    by (simp_all add: genericSubtract_def)
  have cell: "scalarCell rt SCALAR_MUL val s = toFixed4 rt (numTimes rt val s)" for val
    by (simp add: scalarCell_def)
  have mul: "genericMultiply rt k (Scalar s) (Mat M) =
      Inr (Mat \<lparr>id' = randomUUID rt k, name = numToString rt s @ ''('' @ name M @ '')'',
                rows = rows M, cols = cols M,
                data = map (map (\<lambda>val. toFixed4 rt (numTimes rt val s))) (data M)\<rparr>, Suc k)"
    "genericMultiply rt k (Mat M) (Scalar s) =
      Inr (Mat \<lparr>id' = randomUUID rt k, name = numToString rt s @ ''('' @ name M @ '')'',
                rows = rows M, cols = cols M,
                data = map (map (\<lambda>val. toFixed4 rt (numTimes rt val s))) (data M)\<rparr>, Suc k)"
    by (simp_all add: genericMultiply_def scalarOperation_def cell)
  have large: "\<not> \<bar>x\<bar> < 10 ^ 21 \<Longrightarrow> toFixed4 rt x = x"
    by (simp add: toFixed4_def)
  show ?thesis
    using toFixed4_nearest [of x rt] large
    by (simp add: applyOperator_def add sub mul)
qed

text \<open>
  In the witness the scalar is \<open>1/2\<close> and the matrix is \<open>[[1,2],[3,4]]\<close>, whose halves are
  numbers with at most one decimal, so the host rounds nothing.
\<close>

theorem scalar_with_matrix_witness:
  "applyOperator sampleRuntime 0 ''+'' (Scalar (1 / 2)) (Mat sampleA) =
     Inl ScalarMatrixAdditionUnsupported \<and>
   applyOperator sampleRuntime 0 ''*'' (Scalar (1 / 2)) (Mat sampleA) =
     Inr (Mat \<lparr>id' = ''u'', name = ''0.5(A)'', rows = 2, cols = 2,
               data = [[1 / 2, 1], [3 / 2, 2]]\<rparr>, 1) \<and>
   \<bar>3 / 2 :: real\<bar> < 10 ^ 21 \<and> toFixed4 sampleRuntime (3 / 2) = 3 / 2 \<and>
   \<not> \<bar>10 ^ 21 :: real\<bar> < 10 ^ 21 \<and> toFixed4 sampleRuntime (10 ^ 21) = 10 ^ 21"
  using scalar_with_matrix_add_fails_multiply_scales [of sampleRuntime 0 "1 / 2" sampleA "3 / 2"]
    scalar_with_matrix_add_fails_multiply_scales [of sampleRuntime 0 "1 / 2" sampleA "10 ^ 21"]
  by (simp add: sampleRuntime_def sampleUUID_def sampleNumToString_def sampleA_def toFixed4_def
      toDouble_def isInteger_def numTimes_def)

section \<open>The sum of two matrices\<close>

lemma forLoop_step:
  "i < n \<Longrightarrow>
   forLoop i n body s =
     (case body i s of Inl e \<Rightarrow> Inl e | Inr s' \<Rightarrow> forLoop (Suc i) n body s')"
  by (subst forLoop.simps) simp

lemma forLoop_done: "\<not> i < n \<Longrightarrow> forLoop i n body s = Inr s"
  by (subst forLoop.simps) simp

lemma buildMatrixMap_A_B:
  "buildMatrixMap [\<lparr>id' = ia, name = ''A'', rows = ra, cols = ca, data = da\<rparr>,
                   \<lparr>id' = ib, name = ''B'', rows = rb, cols = cb, data = db\<rparr>] =
     [(''A'', \<lparr>id' = ia, name = ''A'', rows = ra, cols = ca, data = da\<rparr>),
      (''B'', \<lparr>id' = ib, name = ''B'', rows = rb, cols = cb, data = db\<rparr>)]"
  by (simp add: buildMatrixMap_def registerMatrix_def toUpperCase_def toUpperChar_def
      fromCharCode_65 fromCharCode_66)

lemma rpn_A_plus_B:
  "toRPN (tokenize ''A+B'') =
     [\<lparr>type = IDENTIFIER, value = ''A''\<rparr>, \<lparr>type = IDENTIFIER, value = ''B''\<rparr>,
      \<lparr>type = OPERATOR, value = ''+''\<rparr>]"
  by (simp add: isDigit_def isLetter_def isOpChar_def toRPN_def rpnStep_def)

lemma addMatrices_sample:
  "addMatrices rt k
     [\<lparr>id' = ia, name = ''A'', rows = 2, cols = 2, data = [[1, 2], [3, 4]]\<rparr>,
      \<lparr>id' = ib, name = ''B'', rows = 2, cols = 2, data = [[5, 6], [7, 8]]\<rparr>] =
   Inr (\<lparr>id' = randomUUID rt k, name = ''(A + B)'', rows = 2, cols = 2,
         data = [[6, 8], [10, 12]]\<rparr>, Suc k)"
  by (simp add: addMatrices_def addCell_def cellAt_def setCell_def createEmptyMatrix_def
      forLoop_step forLoop_done numeral_2_eq_2 numPlus_def toDouble_numeral)

text \<open>
  Claim C6. With the input matrices \<open>A = [[1,2],[3,4]]\<close> and \<open>B = [[5,6],[7,8]]\<close>, named \<open>A\<close>
  and \<open>B\<close>, the expression \<open>A+B\<close> evaluates to a trace of exactly one matrix, with data
  \<open>[[6,8],[10,12]]\<close>. The identifier that the host hands out for the sum is taken to differ
  from the identifiers of the two inputs.
\<close>

theorem evaluate_A_plus_B:
  assumes "randomUUID rt 0 \<noteq> ia" and "randomUUID rt 0 \<noteq> ib"
  shows "evaluateExpression rt ''A+B''
           [\<lparr>id' = ia, name = ''A'', rows = 2, cols = 2, data = [[1, 2], [3, 4]]\<rparr>,
            \<lparr>id' = ib, name = ''B'', rows = 2, cols = 2, data = [[5, 6], [7, 8]]\<rparr>] =
         Inr [\<lparr>id' = randomUUID rt 0, name = ''(A + B)'', rows = 2, cols = 2,
               data = [[6, 8], [10, 12]]\<rparr>]"
proof -
  have nonblank: "trim ''A+B'' \<noteq> []"
    by (rule trim_not_empty) (simp add: isSpace_def)
  have run:
    "forEach
       [\<lparr>type = IDENTIFIER, value = ''A''\<rparr>, \<lparr>type = IDENTIFIER, value = ''B''\<rparr>,
        \<lparr>type = OPERATOR, value = ''+''\<rparr>]
       (evalToken rt
          [(''A'', \<lparr>id' = ia, name = ''A'', rows = 2, cols = 2, data = [[1, 2], [3, 4]]\<rparr>),
           (''B'', \<lparr>id' = ib, name = ''B'', rows = 2, cols = 2, data = [[5, 6], [7, 8]]\<rparr>)])
       \<lparr>stack = [], executionTrace = [], uuidCount = 0\<rparr> =
     Inr \<lparr>stack = [Mat \<lparr>id' = randomUUID rt 0, name = ''(A + B)'', rows = 2, cols = 2,
                           data = [[6, 8], [10, 12]]\<rparr>],
          executionTrace = [\<lparr>id' = randomUUID rt 0, name = ''(A + B)'', rows = 2, cols = 2,
                             data = [[6, 8], [10, 12]]\<rparr>],
          uuidCount = Suc 0\<rparr>"
    using assms
    by (simp add: evalToken_def toUpperCase_def toUpperChar_def pop_def applyOperator_def
        genericAdd_def addMatrices_sample pushResult_def)
  show ?thesis
    unfolding evaluateExpression_def Let_def rpn_A_plus_B buildMatrixMap_A_B run
    using nonblank by simp
qed

theorem evaluate_A_plus_B_witness:
  "evaluateExpression sampleRuntime ''A+B'' [sampleA, sampleB] =
     Inr [\<lparr>id' = ''u'', name = ''(A + B)'', rows = 2, cols = 2,
           data = [[6, 8], [10, 12]]\<rparr>] \<and>
   length [\<lparr>id' = ''u'', name = ''(A + B)'', rows = 2, cols = 2,
            data = [[6, 8], [10, 12 :: real]]\<rparr>] = 1"
  using evaluate_A_plus_B [of sampleRuntime "''a''" "''b''"]
  by (simp add: sampleRuntime_def sampleUUID_def sampleA_def sampleB_def)

section \<open>The resolver registers names, aliases and positional letters\<close>

text \<open>
  The resolver in the words of its specification, on a dictionary as a partial function:
  each matrix, in input order, is stored under its upper-cased name; under the upper-cased,
  trimmed remainder of its name after the prefix \<open>MATRIZ \<close> (compared in upper case), when
  there is such a prefix and the remainder is not empty; and under the character with code
  \<open>65 + index\<close> unless that key is taken already.
\<close>

definition resolverStep ::
  "nat \<times> 'd MatrixOf \<Rightarrow> (string \<rightharpoonup> 'd MatrixOf) \<Rightarrow> (string \<rightharpoonup> 'd MatrixOf)" where
  "resolverStep entry known =
     (let idx = fst entry; m = snd entry;
          fullName = toUpperCase (name m);
          remainder = toUpperCase (trim (drop 7 (name m)));
          named = known(fullName \<mapsto> m);
          aliased = (if take 7 fullName = ''MATRIZ '' \<and> remainder \<noteq> []
                     then named(remainder \<mapsto> m) else named);
          letter = fromCharCode (65 + idx)
      in if letter \<in> dom aliased then aliased else aliased(letter \<mapsto> m))"



definition sampleMatrizA :: Matrix where
  "sampleMatrizA =
     \<lparr>id' = ''d'', name = ''Matriz A'', rows = 2, cols = 3, data = [[1, 2, 3], [4, 5, 6]]\<rparr>"

lemma map_of_registerMatrix:
  "map_of (registerMatrix entry matrixMap) = resolverStep entry (map_of matrixMap)"
  by (auto simp: registerMatrix_def resolverStep_def Let_def update_conv' domIff
      split: option.splits)

lemma map_of_fold_registerMatrix:
  "map_of (fold registerMatrix entries matrixMap) =
     fold resolverStep entries (map_of matrixMap)"
  by (induction entries arbitrary: matrixMap) (simp_all add: map_of_registerMatrix)

lemma buildMatrixMap_snoc:
  "buildMatrixMap (before @ [m]) = registerMatrix (length before, m) (buildMatrixMap before)"
  by (simp add: buildMatrixMap_def enumerate_append_eq)

lemma toUpperCase_Matriz_A: "toUpperCase ''Matriz A'' = ''MATRIZ A''"
  by (simp add: toUpperCase_def toUpperChar_def)

lemma alias_of_Matriz_A: "toUpperCase (trim ''A'') = ''A''"
  by (simp add: toUpperCase_def toUpperChar_def trim_def isSpace_def)

lemma resolverStep_Matriz_A:
  assumes "name m = ''Matriz A''"
  shows "resolverStep (idx, m) known ''A'' = Some m"
proof -
  define aliased where "aliased = (known(''MATRIZ A'' \<mapsto> m))(''A'' \<mapsto> m)"
  define letter where "letter = fromCharCode (65 + idx)"
  have "resolverStep (idx, m) known =
      (if letter \<in> dom aliased then aliased else aliased(letter \<mapsto> m))"
    by (simp add: resolverStep_def Let_def assms toUpperCase_Matriz_A alias_of_Matriz_A
        aliased_def letter_def)
  moreover have "aliased ''A'' = Some m"
    by (simp add: aliased_def)
  ultimately show ?thesis
    by simp
qed

text \<open>A matrix claims a key by its name or by its alias.\<close>

definition claimsKey :: "string \<Rightarrow> 'd MatrixOf \<Rightarrow> bool" where
  "claimsKey k m =
     (toUpperCase (name m) = k \<or>
      (take 7 (toUpperCase (name m)) = ''MATRIZ '' \<and> toUpperCase (trim (drop 7 (name m))) = k))"

lemma resolverStep_keeps:
  assumes "known k = Some m" and "\<not> claimsKey k m'"
  shows "resolverStep (idx, m') known k = Some m"
proof -
  define named where "named = known(toUpperCase (name m') \<mapsto> m')"
  define aliased where "aliased =
    (if take 7 (toUpperCase (name m')) = ''MATRIZ '' \<and> toUpperCase (trim (drop 7 (name m'))) \<noteq> []
     then named(toUpperCase (trim (drop 7 (name m'))) \<mapsto> m') else named)"
  define letter where "letter = fromCharCode (65 + idx)"
  have step: "resolverStep (idx, m') known =
      (if letter \<in> dom aliased then aliased else aliased(letter \<mapsto> m'))"
    by (simp add: resolverStep_def Let_def named_def aliased_def letter_def)
  from assms have "named k = Some m"
    by (auto simp: named_def claimsKey_def)
  with assms(2) have kept: "aliased k = Some m"
    by (auto simp: aliased_def claimsKey_def)
  show ?thesis
  proof (cases "letter \<in> dom aliased")
    case True
    with step kept show ?thesis by simp
  next
    case False
    with kept have "letter \<noteq> k" by auto
    with step kept False show ?thesis by simp
  qed
qed

lemma fold_resolverStep_keeps:
  assumes "known k = Some m" and "list_all (\<lambda>e. \<not> claimsKey k (snd e)) entries"
  shows "fold resolverStep entries known k = Some m"
  using assms
proof (induction entries arbitrary: known)
  case Nil
  then show ?case by simp
next
  case (Cons e entries)
  from Cons.prems have "resolverStep (fst e, snd e) known k = Some m"
    by (intro resolverStep_keeps) simp_all
  with Cons show ?case by simp
qed

lemma lookup_Matriz_A:
  assumes "name m = ''Matriz A''" and "list_all (\<lambda>m'. \<not> claimsKey ''A'' m') after"
  shows "map_of (buildMatrixMap (before @ m # after)) ''A'' = Some m"
proof -
  have "map_of (buildMatrixMap (before @ m # after)) =
      fold resolverStep (enumerate (Suc (length before)) after)
        (resolverStep (length before, m) (map_of (buildMatrixMap before)))"
    by (simp add: buildMatrixMap_def enumerate_append_eq map_of_fold_registerMatrix
        map_of_registerMatrix)
  moreover have "list_all (\<lambda>e. \<not> claimsKey ''A'' (snd e)) (enumerate (Suc (length before)) after)"
    using assms(2) by (auto simp: list_all_iff in_set_enumerate_eq)
  ultimately show ?thesis
    by (simp add: fold_resolverStep_keeps resolverStep_Matriz_A [OF assms(1)])
qed





section \<open>Loops that fill a grid\<close>

lemma forLoop_invariant:
  assumes "I i s" and "i \<le> n"
    and step: "\<And>j t. i \<le> j \<Longrightarrow> j < n \<Longrightarrow> I j t \<Longrightarrow> \<exists>t'. body j t = Inr t' \<and> I (Suc j) t'"
  shows "\<exists>t. forLoop i n body s = Inr t \<and> I n t"
  using assms
proof (induction "n - i" arbitrary: i s)
  case 0
  then have "i = n" by simp
  with "0.prems"(1) show ?case by (simp add: forLoop_done)
next
  case (Suc d)
  then have lt: "i < n" by simp
  from Suc.prems(3) [of i s] lt Suc.prems(1)
  obtain t' where t': "body i s = Inr t'" "I (Suc i) t'" by auto
  have "\<exists>t. forLoop (Suc i) n body t' = Inr t \<and> I n t"
  proof (rule Suc.hyps(1))
    show "d = n - Suc i" using Suc.hyps(2) by simp
    show "I (Suc i) t'" by (rule t')
    show "Suc i \<le> n" using lt by simp
    show "\<exists>t'. body j t = Inr t' \<and> I (Suc j) t'" if "Suc i \<le> j" "j < n" "I j t" for j t
      using that Suc.prems(3) [of j t] by simp
  qed
  with lt t' show ?case by (simp add: forLoop_step)
qed

text \<open>
  The shape invariant of the data model: a grid of \<open>R\<close> rows, each of \<open>C\<close> cells.
\<close>

definition gridShape :: "nat \<Rightarrow> nat \<Rightarrow> real list list \<Rightarrow> bool" where
  "gridShape R C d = (length d = R \<and> list_all (\<lambda>row. length row = C) d)"

lemma gridShape_nth: "gridShape R C d \<Longrightarrow> a < R \<Longrightarrow> length (d ! a) = C"
  by (simp add: gridShape_def list_all_length)

lemma gridShape_createEmptyMatrix: "gridShape R C (createEmptyMatrix R C z)"
  by (simp add: gridShape_def createEmptyMatrix_def list_all_length)

lemma setCell_inside:
  assumes "gridShape R C d" and "a < R" and "b < C"
  shows "setCell d a b x = Inr (d[a := (d ! a)[b := x]])"
  using assms by (simp add: setCell_def gridShape_def list_all_length)

lemma gridShape_update:
  assumes "gridShape R C d" and "a < R"
  shows "gridShape R C (d[a := (d ! a)[b := x]])"
  using assms by (auto simp: gridShape_def list_all_length nth_list_update)

lemma nth_grid_update:
  assumes "gridShape R C d" and "a < R" and "b < C" and "a' < R"
  shows "d[a := (d ! a)[b := x]] ! a' ! b' = (if a' = a \<and> b' = b then x else d ! a' ! b')"
  using assms by (auto simp: gridShape_def list_all_length nth_list_update)

lemma nested_fill:
  fixes pos :: "nat \<Rightarrow> nat \<Rightarrow> nat \<times> nat"
  assumes shape0: "gridShape R C rd0"
    and body: "\<And>i j rd. i < r \<Longrightarrow> j < c \<Longrightarrow>
        body i j rd = setCell rd (fst (pos i j)) (snd (pos i j)) (v i j)"
    and inside: "\<And>i j. i < r \<Longrightarrow> j < c \<Longrightarrow> fst (pos i j) < R \<and> snd (pos i j) < C"
    and inj: "\<And>i j i' j'. i < r \<Longrightarrow> j < c \<Longrightarrow> i' < r \<Longrightarrow> j' < c \<Longrightarrow>
        pos i j = pos i' j' \<Longrightarrow> i = i' \<and> j = j'"
  shows "\<exists>rd. forLoop 0 r (\<lambda>i rd. forLoop 0 c (body i) rd) rd0 = Inr rd \<and>
           gridShape R C rd \<and>
           (\<forall>i<r. \<forall>j<c. rd ! fst (pos i j) ! snd (pos i j) = v i j)"
proof -
  define filled where "filled i j rd \<longleftrightarrow>
      gridShape R C rd \<and>
      (\<forall>i'<i. \<forall>j'<c. rd ! fst (pos i' j') ! snd (pos i' j') = v i' j') \<and>
      (\<forall>j'<j. rd ! fst (pos i j') ! snd (pos i j') = v i j')" for i j rd
  have inner: "\<exists>rd'. forLoop 0 c (body i) rd = Inr rd' \<and> filled (Suc i) 0 rd'"
    if i: "i < r" and start: "filled i 0 rd" for i rd
  proof -
    have "\<exists>rd'. forLoop 0 c (body i) rd = Inr rd' \<and> filled i c rd'"
    proof (rule forLoop_invariant [where I = "filled i"])
      show "filled i 0 rd" by (rule start)
      show "0 \<le> c" by simp
      show "\<exists>t'. body i j t = Inr t' \<and> filled i (Suc j) t'"
        if "0 \<le> j" and j: "j < c" and inv: "filled i j t" for j t
      proof -
        from inv have shape: "gridShape R C t" by (simp add: filled_def)
        from inside [OF i j] have a: "fst (pos i j) < R" and b: "snd (pos i j) < C" by simp_all
        let ?t' = "t[fst (pos i j) := (t ! fst (pos i j))[snd (pos i j) := v i j]]"
        have run: "body i j t = Inr ?t'"
          by (simp add: body [OF i j] setCell_inside [OF shape a b])
        have cell: "?t' ! fst (pos i' j') ! snd (pos i' j') =
            (if i' = i \<and> j' = j then v i j else t ! fst (pos i' j') ! snd (pos i' j'))"
          if "i' < r" "j' < c" for i' j'
        proof -
          from inside [OF that] have "fst (pos i' j') < R" by simp
          from nth_grid_update [OF shape a b this]
          have "?t' ! fst (pos i' j') ! snd (pos i' j') =
              (if fst (pos i' j') = fst (pos i j) \<and> snd (pos i' j') = snd (pos i j) then v i j
               else t ! fst (pos i' j') ! snd (pos i' j'))" .
          moreover have "fst (pos i' j') = fst (pos i j) \<and> snd (pos i' j') = snd (pos i j) \<longleftrightarrow>
              i' = i \<and> j' = j"
            using inj [OF that i j] by (auto simp: prod_eq_iff)
          ultimately show ?thesis by simp
        qed
        have "filled i (Suc j) ?t'"
          unfolding filled_def
        proof (intro conjI allI impI)
          show "gridShape R C ?t'" by (rule gridShape_update [OF shape a])
        next
          fix i' j' assume "i' < i" "j' < c"
          with i inv cell [of i' j'] show "?t' ! fst (pos i' j') ! snd (pos i' j') = v i' j'"
            by (simp add: filled_def)
        next
          fix j' assume "j' < Suc j"
          with i j inv cell [of i j'] show "?t' ! fst (pos i j') ! snd (pos i j') = v i j'"
            by (auto simp: filled_def less_Suc_eq)
        qed
        with run show ?thesis by blast
      qed
    qed
    then obtain rd' where rd': "forLoop 0 c (body i) rd = Inr rd'" "filled i c rd'" by blast
    from rd'(2) have "filled (Suc i) 0 rd'"
      by (auto simp: filled_def less_Suc_eq)
    with rd'(1) show ?thesis by blast
  qed
  have "\<exists>rd. forLoop 0 r (\<lambda>i rd. forLoop 0 c (body i) rd) rd0 = Inr rd \<and> filled r 0 rd"
  proof (rule forLoop_invariant [where I = "\<lambda>i. filled i 0"])
    show "filled 0 0 rd0" using shape0 by (simp add: filled_def)
    show "0 \<le> r" by simp
    show "\<exists>t'. forLoop 0 c (body j) t = Inr t' \<and> filled (Suc j) 0 t'"
      if "0 \<le> j" "j < r" "filled j 0 t" for j t
      using inner [OF that(2,3)] .
  qed
  then show ?thesis by (auto simp: filled_def)
qed

lemma grid_eqI:
  assumes "gridShape R C d"
    and "\<And>i j. i < R \<Longrightarrow> j < C \<Longrightarrow> d ! i ! j = f i j"
  shows "d = map (\<lambda>i. map (f i) [0..<C]) [0..<R]"
proof (rule nth_equalityI)
  show "length d = length (map (\<lambda>i. map (f i) [0..<C]) [0..<R])"
    using assms(1) by (simp add: gridShape_def)
next
  fix i assume "i < length d"
  with assms(1) have i: "i < R" by (simp add: gridShape_def)
  have "d ! i = map (f i) [0..<C]"
  proof (rule nth_equalityI)
    show "length (d ! i) = length (map (f i) [0..<C])"
      using gridShape_nth [OF assms(1) i] by simp
  next
    fix j assume "j < length (d ! i)"
    with gridShape_nth [OF assms(1) i] have "j < C" by simp
    with i show "d ! i ! j = map (f i) [0..<C] ! j" by (simp add: assms(2))
  qed
  with i show "d ! i = map (\<lambda>i. map (f i) [0..<C]) [0..<R] ! i" by simp
qed

section \<open>Transposition\<close>

definition wellShaped :: "Matrix \<Rightarrow> bool" where
  "wellShaped m = gridShape (rows m) (cols m) (data m)"

lemma cellAt_inside:
  assumes "gridShape R C d" and "i < R" and "j < C"
  shows "cellAt d i j = Inr (d ! i ! j)"
  using assms by (simp add: cellAt_def gridShape_def list_all_length)

definition transposeGrid :: "nat \<Rightarrow> nat \<Rightarrow> real list list \<Rightarrow> real list list" where
  "transposeGrid R C d = map (\<lambda>j. map (\<lambda>i. d ! i ! j) [0..<R]) [0..<C]"

lemma gridShape_map: "gridShape R C (map (\<lambda>i. map (f i) [0..<C]) [0..<R])"
  by (simp add: gridShape_def list_all_length)

lemma transposeMatrix_wellShaped:
  assumes "wellShaped m"
  shows "transposeMatrix rt k m =
    Inr (\<lparr>id' = randomUUID rt k, name = name m @ superscriptT, rows = cols m, cols = rows m,
          data = transposeGrid (rows m) (cols m) (data m)\<rparr>, Suc k)"
proof -
  from assms have shape: "gridShape (rows m) (cols m) (data m)" by (simp add: wellShaped_def)
  have "\<exists>rd. forLoop 0 (rows m)
           (\<lambda>i rd. forLoop 0 (cols m)
              ((\<lambda>i j rd. case cellAt (data m) i j of Inl e \<Rightarrow> Inl e | Inr v \<Rightarrow> setCell rd j i v) i)
              rd)
           (createEmptyMatrix (cols m) (rows m) 0) = Inr rd \<and>
         gridShape (cols m) (rows m) rd \<and>
         (\<forall>i<rows m. \<forall>j<cols m. rd ! fst (j, i) ! snd (j, i) = data m ! i ! j)"
    by (rule nested_fill [where pos = "\<lambda>i j. (j, i)"])
      (simp_all add: gridShape_createEmptyMatrix cellAt_inside [OF shape])
  then obtain rd where run: "forLoop 0 (rows m)
           (\<lambda>i rd. forLoop 0 (cols m)
              (\<lambda>j rd. case cellAt (data m) i j of Inl e \<Rightarrow> Inl e | Inr v \<Rightarrow> setCell rd j i v)
              rd)
           (createEmptyMatrix (cols m) (rows m) 0) = Inr rd"
    and rd: "gridShape (cols m) (rows m) rd"
    and cells: "\<And>i j. i < rows m \<Longrightarrow> j < cols m \<Longrightarrow> rd ! j ! i = data m ! i ! j"
    by auto
  have "rd = transposeGrid (rows m) (cols m) (data m)"
    unfolding transposeGrid_def by (rule grid_eqI [OF rd]) (simp add: cells)
  with run show ?thesis by (simp add: transposeMatrix_def)
qed

lemma transposeGrid_twice:
  assumes "gridShape R C d"
  shows "transposeGrid C R (transposeGrid R C d) = d"
proof -
  have "d = map (\<lambda>i. map (\<lambda>j. d ! i ! j) [0..<C]) [0..<R]"
    by (rule grid_eqI [OF assms]) simp
  moreover have "transposeGrid C R (transposeGrid R C d) =
      map (\<lambda>i. map (\<lambda>j. d ! i ! j) [0..<C]) [0..<R]"
    by (simp add: transposeGrid_def)
  ultimately show ?thesis by simp
qed

lemma set_AList_update: "set (AList.update k v al) \<subseteq> insert (k, v) (set al)"
  by (induction al) auto

lemma values_registerMatrix:
  "snd ` set (registerMatrix entry matrixMap) \<subseteq> insert (snd entry) (snd ` set matrixMap)"
proof -
  have upd: "snd ` set (AList.update k (snd entry) al) \<subseteq> insert (snd entry) (snd ` set al)" for k al
    using set_AList_update [of k "snd entry" al] by auto
  show ?thesis
    unfolding registerMatrix_def Let_def
    by (auto split: option.splits if_splits dest!: upd [THEN subsetD])
qed

lemma values_fold_registerMatrix:
  "snd ` set (fold registerMatrix entries matrixMap) \<subseteq> snd ` set entries \<union> snd ` set matrixMap"
proof (induction entries arbitrary: matrixMap)
  case Nil
  then show ?case by simp
next
  case (Cons e entries)
  from Cons.IH [of "registerMatrix e matrixMap"] values_registerMatrix [of e matrixMap]
  show ?case by auto
qed

lemma values_buildMatrixMap: "snd ` set (buildMatrixMap ms) \<subseteq> set ms"
proof -
  have "snd ` set (enumerate 0 ms) = set ms"
    by (metis list.set_map map_snd_enumerate)
  with values_fold_registerMatrix [of "enumerate 0 ms" "[]"] show ?thesis
    by (simp add: buildMatrixMap_def)
qed

lemma lookup_buildMatrixMap_member:
  "map_of (buildMatrixMap ms) k = Some m \<Longrightarrow> m \<in> set ms"
  using values_buildMatrixMap [of ms] by (auto dest!: map_of_SomeD)

lemma fresh_not_input:
  assumes "u \<notin> id' ` set ms"
  shows "\<not> list_ex (\<lambda>inp. id' inp = u) (map snd (buildMatrixMap ms))"
  using assms values_buildMatrixMap [of ms] by (auto simp: list_ex_iff)

lemma rpn_A_transposed_twice:
  "toRPN (tokenize [CHR ''A'', CHR 0x27, CHR 0x27]) =
     [\<lparr>type = IDENTIFIER, value = ''A''\<rparr>, \<lparr>type = OPERATOR, value = [CHR 0x27]\<rparr>,
      \<lparr>type = OPERATOR, value = [CHR 0x27]\<rparr>]"
  by (simp add: isDigit_def isLetter_def isOpChar_def toRPN_def rpnStep_def precedence_def
      precGe_def)

lemma toUpperCase_A: "toUpperCase ''A'' = ''A''"
  by (simp add: toUpperCase_def toUpperChar_def)

text \<open>
  Claim C7. Let the identifier \<open>A\<close> resolve to a matrix \<open>A\<close> that has the shape its \<open>rows\<close>
  and \<open>cols\<close> announce, and let the two identifiers the host hands out differ from those of
  the supplied matrices. Then the expression \<open>A''\<close> succeeds; its trace is the transpose
  and then the transpose of the transpose, and the data of that final matrix is the data
  of \<open>A\<close>, cell for cell: transposition copies cells and rounds nothing.
\<close>

theorem double_transpose_returns_data:
  assumes "map_of (buildMatrixMap availableMatrices) ''A'' = Some A"
    and shaped: "length (data A) = rows A \<and> (\<forall>row\<in>set (data A). length row = cols A)"
    and "randomUUID rt 0 \<notin> id' ` set availableMatrices"
    and "randomUUID rt 1 \<notin> id' ` set availableMatrices"
  shows "evaluateExpression rt [CHR ''A'', CHR 0x27, CHR 0x27] availableMatrices =
    Inr [\<lparr>id' = randomUUID rt 0, name = name A @ superscriptT, rows = cols A, cols = rows A,
          data = transposeGrid (rows A) (cols A) (data A)\<rparr>,
         \<lparr>id' = randomUUID rt 1, name = name A @ superscriptT @ superscriptT, rows = rows A,
          cols = cols A, data = data A\<rparr>]"
proof -
  define T1 where "T1 = \<lparr>id' = randomUUID rt 0, name = name A @ superscriptT, rows = cols A,
    cols = rows A, data = transposeGrid (rows A) (cols A) (data A)\<rparr>"
  define T2 where "T2 = \<lparr>id' = randomUUID rt 1, name = name A @ superscriptT @ superscriptT,
    rows = rows A, cols = cols A, data = data A\<rparr>"
  define mm where "mm = buildMatrixMap availableMatrices"
  from shaped have wsA: "wellShaped A"
    by (simp add: wellShaped_def gridShape_def list_all_iff)
  have first: "transposeMatrix rt 0 A = Inr (T1, Suc 0)"
    by (simp add: transposeMatrix_wellShaped [OF wsA] T1_def)
  have "wellShaped T1"
    by (simp add: wellShaped_def T1_def transposeGrid_def gridShape_map)
  then have second: "transposeMatrix rt (Suc 0) T1 = Inr (T2, Suc (Suc 0))"
    using wsA
    by (simp add: transposeMatrix_wellShaped T1_def T2_def transposeGrid_twice wellShaped_def)
  have fresh: "\<not> list_ex (\<lambda>inp. id' inp = id' T1) (map snd mm)"
    "\<not> list_ex (\<lambda>inp. id' inp = id' T2) (map snd mm)"
    using fresh_not_input [OF assms(3)] fresh_not_input [OF assms(4)]
    by (simp_all add: T1_def T2_def mm_def)
  have run: "forEach
       [\<lparr>type = IDENTIFIER, value = ''A''\<rparr>, \<lparr>type = OPERATOR, value = [CHR 0x27]\<rparr>,
        \<lparr>type = OPERATOR, value = [CHR 0x27]\<rparr>]
       (evalToken rt mm) \<lparr>stack = [], executionTrace = [], uuidCount = 0\<rparr> =
     Inr \<lparr>stack = [Mat T2], executionTrace = [T1, T2], uuidCount = Suc (Suc 0)\<rparr>"
    using assms(1) fresh
    by (simp add: evalToken_def toUpperCase_A pop_def first second pushResult_def mm_def)
  have nonblank: "trim [CHR ''A'', CHR 0x27, CHR 0x27] \<noteq> []"
    by (rule trim_not_empty) (simp add: isSpace_def)
  show ?thesis
    unfolding evaluateExpression_def Let_def rpn_A_transposed_twice
    using nonblank run by (simp add: mm_def T1_def T2_def)
qed

theorem double_transpose_witness:
  "evaluateExpression sampleRuntime [CHR ''A'', CHR 0x27, CHR 0x27] [sampleMatrizA] =
    Inr [\<lparr>id' = ''u'', name = ''Matriz A'' @ superscriptT, rows = 3, cols = 2,
          data = [[1, 4], [2, 5], [3, 6]]\<rparr>,
         \<lparr>id' = ''ux'', name = ''Matriz A'' @ superscriptT @ superscriptT, rows = 2,
          cols = 3, data = [[1, 2, 3], [4, 5, 6]]\<rparr>]"
proof -
  have "map_of (buildMatrixMap ([] @ sampleMatrizA # [])) ''A'' = Some sampleMatrizA"
    by (rule lookup_Matriz_A) (simp_all add: sampleMatrizA_def)
  moreover have "length (data sampleMatrizA) = rows sampleMatrizA \<and>
      (\<forall>row\<in>set (data sampleMatrizA). length row = cols sampleMatrizA)"
    by (simp add: sampleMatrizA_def)
  ultimately show ?thesis
    using double_transpose_returns_data [of "[sampleMatrizA]" sampleMatrizA sampleRuntime]
    by (simp add: sampleRuntime_def sampleUUID_def sampleMatrizA_def transposeGrid_def
        numeral_2_eq_2 numeral_3_eq_3)
qed

section \<open>Sums, differences and products of well-shaped matrices\<close>

lemma forEach_cells:
  assumes "list_all (\<lambda>m. gridShape R C (data m)) ms" and "i < R" and "j < C"
  shows "forEach ms
           (\<lambda>m acc. case cellAt (data m) i j of Inl e \<Rightarrow> Inl e | Inr val \<Rightarrow> Inr (f acc val)) s =
         Inr (foldl (\<lambda>acc m. f acc (data m ! i ! j)) s ms)"
  using assms(1)
proof (induction ms arbitrary: s)
  case Nil
  then show ?case by simp
next
  case (Cons m ms)
  from Cons.prems have "gridShape R C (data m)" by simp
  then have "cellAt (data m) i j = Inr (data m ! i ! j)"
    using assms(2,3) by (rule cellAt_inside)
  with Cons show ?case by simp
qed

definition sumGrid :: "runtime \<Rightarrow> nat \<Rightarrow> nat \<Rightarrow> Matrix list \<Rightarrow> real list list" where
  "sumGrid rt R C ms =
     map (\<lambda>i. map (\<lambda>j. foldl (\<lambda>acc m. numPlus rt acc (data m ! i ! j)) 0 ms) [0..<C]) [0..<R]"

lemma addMatrices_wellShaped:
  assumes "list_all (\<lambda>m. gridShape (rows first) (cols first) (data m)) (first # others)"
  shows "addMatrices rt k (first # others) =
    Inr (\<lparr>id' = randomUUID rt k,
          name = (if length (first # others) \<le> 3
                  then ''('' @ join '' + '' (map name (first # others)) @ '')''
                  else ''Suma Total''),
          rows = rows first, cols = cols first,
          data = sumGrid rt (rows first) (cols first) (first # others)\<rparr>, Suc k)"
proof -
  let ?ms = "first # others"
  let ?v = "\<lambda>i j. foldl (\<lambda>acc m. numPlus rt acc (data m ! i ! j)) 0 ?ms"
  have cell: "addCell rt ?ms i j = Inr (?v i j)" if "i < rows first" "j < cols first" for i j
    unfolding addCell_def by (rule forEach_cells [OF assms that])
  have "\<exists>rd. forLoop 0 (rows first)
           (\<lambda>i rd. forLoop 0 (cols first)
              ((\<lambda>i j rd. case addCell rt ?ms i j of Inl e \<Rightarrow> Inl e | Inr sumAcc \<Rightarrow> setCell rd i j sumAcc) i)
              rd)
           (createEmptyMatrix (rows first) (cols first) 0) = Inr rd \<and>
         gridShape (rows first) (cols first) rd \<and>
         (\<forall>i<rows first. \<forall>j<cols first. rd ! fst (i, j) ! snd (i, j) = ?v i j)"
    by (rule nested_fill [where pos = "\<lambda>i j. (i, j)"])
      (simp_all add: gridShape_createEmptyMatrix cell)
  then obtain rd where run: "forLoop 0 (rows first)
           (\<lambda>i rd. forLoop 0 (cols first)
              (\<lambda>j rd. case addCell rt ?ms i j of Inl e \<Rightarrow> Inl e | Inr sumAcc \<Rightarrow> setCell rd i j sumAcc)
              rd)
           (createEmptyMatrix (rows first) (cols first) 0) = Inr rd"
    and rd: "gridShape (rows first) (cols first) rd"
    and cells: "\<And>i j. i < rows first \<Longrightarrow> j < cols first \<Longrightarrow> rd ! i ! j = ?v i j"
    by auto
  have "rd = sumGrid rt (rows first) (cols first) ?ms"
    unfolding sumGrid_def by (rule grid_eqI [OF rd]) (simp add: cells)
  with run show ?thesis by (simp add: addMatrices_def)
qed

definition differenceGrid ::
  "runtime \<Rightarrow> nat \<Rightarrow> nat \<Rightarrow> Matrix \<Rightarrow> Matrix list \<Rightarrow> real list list" where
  "differenceGrid rt R C first others =
     map (\<lambda>i. map (\<lambda>j. foldl (\<lambda>acc m. numMinus rt acc (data m ! i ! j))
                            (data first ! i ! j) others) [0..<C])
       [0..<R]"

lemma subtractMatrices_wellShaped:
  assumes "list_all (\<lambda>m. gridShape (rows first) (cols first) (data m)) (first # others)"
  shows "subtractMatrices rt k (first # others) =
    Inr (\<lparr>id' = randomUUID rt k,
          name = (if length (first # others) \<le> 3
                  then ''('' @ join '' - '' (map name (first # others)) @ '')''
                  else ''Resta Secuencial''),
          rows = rows first, cols = cols first,
          data = differenceGrid rt (rows first) (cols first) first others\<rparr>, Suc k)"
proof -
  let ?ms = "first # others"
  let ?v = "\<lambda>i j. foldl (\<lambda>acc m. numMinus rt acc (data m ! i ! j)) (data first ! i ! j) others"
  from assms have first: "gridShape (rows first) (cols first) (data first)"
    and others: "list_all (\<lambda>m. gridShape (rows first) (cols first) (data m)) others"
    by simp_all
  have cell: "subtractCell rt ?ms i j = Inr (?v i j)" if "i < rows first" "j < cols first" for i j
    by (simp add: subtractCell_def cellAt_inside [OF first that] forEach_cells [OF others that])
  have "\<exists>rd. forLoop 0 (rows first)
           (\<lambda>i rd. forLoop 0 (cols first)
              ((\<lambda>i j rd. case subtractCell rt ?ms i j of Inl e \<Rightarrow> Inl e | Inr val \<Rightarrow> setCell rd i j val) i)
              rd)
           (createEmptyMatrix (rows first) (cols first) 0) = Inr rd \<and>
         gridShape (rows first) (cols first) rd \<and>
         (\<forall>i<rows first. \<forall>j<cols first. rd ! fst (i, j) ! snd (i, j) = ?v i j)"
    by (rule nested_fill [where pos = "\<lambda>i j. (i, j)"])
      (simp_all add: gridShape_createEmptyMatrix cell)
  then obtain rd where run: "forLoop 0 (rows first)
           (\<lambda>i rd. forLoop 0 (cols first)
              (\<lambda>j rd. case subtractCell rt ?ms i j of Inl e \<Rightarrow> Inl e | Inr val \<Rightarrow> setCell rd i j val)
              rd)
           (createEmptyMatrix (rows first) (cols first) 0) = Inr rd"
    and rd: "gridShape (rows first) (cols first) rd"
    and cells: "\<And>i j. i < rows first \<Longrightarrow> j < cols first \<Longrightarrow> rd ! i ! j = ?v i j"
    by auto
  have "rd = differenceGrid rt (rows first) (cols first) first others"
    unfolding differenceGrid_def by (rule grid_eqI [OF rd]) (simp add: cells)
  with run show ?thesis by (simp add: subtractMatrices_def)
qed

text \<open>
  The sum that the inner loop of \<open>multiplyTwoMatrices\<close> has accumulated after \<open>n\<close> rounds, each
  product and each partial sum rounded by the host.
\<close>

definition dotProduct :: "runtime \<Rightarrow> Matrix \<Rightarrow> Matrix \<Rightarrow> nat \<Rightarrow> nat \<Rightarrow> nat \<Rightarrow> real" where
  "dotProduct rt A B i j n =
     foldl (\<lambda>acc k. numPlus rt acc (numTimes rt (data A ! i ! k) (data B ! k ! j))) 0 [0..<n]"

definition productGrid :: "runtime \<Rightarrow> Matrix \<Rightarrow> Matrix \<Rightarrow> real list list" where
  "productGrid rt A B =
     map (\<lambda>i. map (\<lambda>j. toFixed4 rt (dotProduct rt A B i j (cols A))) [0..<cols B])
       [0..<rows A]"

lemma multiplyCell_inside:
  assumes A: "wellShaped A" and B: "wellShaped B" and inner: "cols A = rows B"
    and i: "i < rows A" and j: "j < cols B"
  shows "multiplyCell rt A B i j = Inr (dotProduct rt A B i j (cols A))"
proof -
  from A have shapeA: "gridShape (rows A) (cols A) (data A)" by (simp add: wellShaped_def)
  from B have shapeB: "gridShape (rows B) (cols B) (data B)" by (simp add: wellShaped_def)
  let ?body = "\<lambda>k sumAcc. case cellAt (data A) i k of
                   Inl e \<Rightarrow> Inl e
                 | Inr valA \<Rightarrow>
                     (case cellAt (data B) k j of
                        Inl e \<Rightarrow> Inl e
                      | Inr valB \<Rightarrow> Inr (numPlus rt sumAcc (numTimes rt valA valB)))"
  have "\<exists>t. forLoop 0 (cols A) ?body 0 = Inr t \<and> t = dotProduct rt A B i j (cols A)"
  proof (rule forLoop_invariant [where I = "\<lambda>n t. t = dotProduct rt A B i j n"])
    show "(0::real) = dotProduct rt A B i j 0" by (simp add: dotProduct_def)
    show "0 \<le> cols A" by simp
    show "\<exists>t'. ?body n t = Inr t' \<and> t' = dotProduct rt A B i j (Suc n)"
      if "0 \<le> n" and n: "n < cols A" and t: "t = dotProduct rt A B i j n"
      for n t
    proof -
      from n inner have "n < rows B" by simp
      then have "cellAt (data B) n j = Inr (data B ! n ! j)"
        using j by (intro cellAt_inside [OF shapeB])
      moreover have "cellAt (data A) i n = Inr (data A ! i ! n)"
        using i n by (intro cellAt_inside [OF shapeA])
      ultimately show ?thesis using t by (simp add: dotProduct_def)
    qed
  qed
  then show ?thesis by (simp add: multiplyCell_def)
qed

lemma multiplyTwoMatrices_wellShaped:
  assumes A: "wellShaped A" and B: "wellShaped B" and inner: "cols A = rows B"
  shows "multiplyTwoMatrices rt k A B =
    Inr (\<lparr>id' = randomUUID rt k,
          name = ''('' @ name A @ '' '' @ middleDot @ '' '' @ name B @ '')'',
          rows = rows A, cols = cols B, data = productGrid rt A B\<rparr>, Suc k)"
proof -
  let ?v = "\<lambda>i j. toFixed4 rt (dotProduct rt A B i j (cols A))"
  have "\<exists>rd. forLoop 0 (rows A)
           (\<lambda>i rd. forLoop 0 (cols B)
              ((\<lambda>i j rd. case multiplyCell rt A B i j of
                            Inl e \<Rightarrow> Inl e
                          | Inr sumAcc \<Rightarrow> setCell rd i j (toFixed4 rt sumAcc)) i)
              rd)
           (createEmptyMatrix (rows A) (cols B) 0) = Inr rd \<and>
         gridShape (rows A) (cols B) rd \<and>
         (\<forall>i<rows A. \<forall>j<cols B. rd ! fst (i, j) ! snd (i, j) = ?v i j)"
    by (rule nested_fill [where pos = "\<lambda>i j. (i, j)"])
      (simp_all add: gridShape_createEmptyMatrix multiplyCell_inside [OF A B inner])
  then obtain rd where run: "forLoop 0 (rows A)
           (\<lambda>i rd. forLoop 0 (cols B)
              (\<lambda>j rd. case multiplyCell rt A B i j of
                         Inl e \<Rightarrow> Inl e
                       | Inr sumAcc \<Rightarrow> setCell rd i j (toFixed4 rt sumAcc))
              rd)
           (createEmptyMatrix (rows A) (cols B) 0) = Inr rd"
    and rd: "gridShape (rows A) (cols B) rd"
    and cells: "\<And>i j. i < rows A \<Longrightarrow> j < cols B \<Longrightarrow> rd ! i ! j = ?v i j"
    by auto
  have "rd = productGrid rt A B"
    unfolding productGrid_def by (rule grid_eqI [OF rd]) (simp add: cells)
  with run show ?thesis by (simp add: multiplyTwoMatrices_def)
qed

lemma wellShaped_product:
  "wellShaped \<lparr>id' = u, name = n, rows = rows A, cols = cols B, data = productGrid rt A B\<rparr>"
  by (simp add: wellShaped_def productGrid_def gridShape_map)

lemma powerLoop_step:
  "real i < exponent \<Longrightarrow>
   powerLoop rt matrix exponent i (result, k) =
     (case multiplyTwoMatrices rt k result matrix of
        Inl e \<Rightarrow> Inl e
      | Inr nextResult \<Rightarrow> powerLoop rt matrix exponent (Suc i) nextResult)"
  by (subst powerLoop.simps) simp

lemma powerLoop_done:
  "\<not> real i < exponent \<Longrightarrow> powerLoop rt matrix exponent i (result, k) = Inr (result, k)"
  by (subst powerLoop.simps) simp

lemma powerLoop_wellShaped:
  assumes "wellShaped matrix" and "rows matrix = cols matrix"
    and "wellShaped result" and "rows result = rows matrix" and "cols result = cols matrix"
  shows "\<exists>result' k'. powerLoop rt matrix exponent i (result, k) = Inr (result', k') \<and>
           wellShaped result' \<and> rows result' = rows matrix \<and> cols result' = cols matrix"
  using assms
proof (induction rt matrix exponent i "(result, k)" arbitrary: result k rule: powerLoop.induct)
  case (1 rt matrix exponent i result k)
  show ?case
  proof (cases "real i < exponent")
    case False
    with 1 show ?thesis by (simp add: powerLoop_done)
  next
    case True
    let ?next = "\<lparr>id' = randomUUID rt k,
          name = ''('' @ name result @ '' '' @ middleDot @ '' '' @ name matrix @ '')'',
          rows = rows result, cols = cols matrix, data = productGrid rt result matrix\<rparr>"
    have mult: "multiplyTwoMatrices rt k result matrix = Inr (?next, Suc k)"
      using "1.prems" by (intro multiplyTwoMatrices_wellShaped) simp_all
    have shaped: "wellShaped ?next"
      by (rule wellShaped_product)
    have "\<exists>result' k'. powerLoop rt matrix exponent (Suc i) (?next, Suc k) = Inr (result', k') \<and>
           wellShaped result' \<and> rows result' = rows matrix \<and> cols result' = cols matrix"
      using True mult "1.prems" shaped
      by (intro "1.hyps") simp_all
    with True mult show ?thesis by (simp add: powerLoop_step)
  qed
qed

section \<open>The shape invariant along an evaluation\<close>

definition operandShaped :: "grid operand \<Rightarrow> bool" where
  "operandShaped v = (case v of Scalar x \<Rightarrow> True | Mat m \<Rightarrow> wellShaped m)"

definition stateShaped :: "grid EvalState \<Rightarrow> bool" where
  "stateShaped st =
     (list_all operandShaped (stack st) \<and> list_all wellShaped (executionTrace st))"

lemma wellShaped_iff:
  "wellShaped m \<longleftrightarrow>
     length (data m) = rows m \<and> (\<forall>row\<in>set (data m). length row = cols m)"
  by (simp add: wellShaped_def gridShape_def list_all_iff)

lemma wellShaped_sum:
  "wellShaped \<lparr>id' = u, name = n, rows = R, cols = C, data = sumGrid rt R C ms\<rparr>"
  by (simp add: wellShaped_def sumGrid_def gridShape_map)

lemma wellShaped_difference:
  "wellShaped \<lparr>id' = u, name = n, rows = R, cols = C, data = differenceGrid rt R C first others\<rparr>"
  by (simp add: wellShaped_def differenceGrid_def gridShape_map)

lemma wellShaped_transposed:
  "wellShaped \<lparr>id' = u, name = n, rows = C, cols = R, data = transposeGrid R C d\<rparr>"
  by (simp add: wellShaped_def transposeGrid_def gridShape_map)

lemma wellShaped_scalarOperation:
  assumes "wellShaped m"
  shows "wellShaped (fst (scalarOperation rt k m x op))"
  using assms by (simp add: scalarOperation_def wellShaped_def gridShape_def list_all_iff)

lemma genericAdd_shaped:
  assumes "operandShaped a" and "operandShaped b" and "genericAdd rt k a b = Inr (r, k')"
  shows "operandShaped r"
proof (cases a)
  case (Scalar x)
  with assms(3) show ?thesis
    by (cases b) (auto simp: genericAdd_def operandShaped_def)
next
  case (Mat mA)
  note a = Mat
  show ?thesis
  proof (cases b)
    case (Scalar y)
    with a assms(3) show ?thesis by (simp add: genericAdd_def)
  next
    case (Mat mB)
    with a assms(3) have dims: "rows mA = rows mB" "cols mA = cols mB"
      by (auto simp: genericAdd_def split: if_splits)
    with a Mat assms(1,2)
    have "list_all (\<lambda>m. gridShape (rows mA) (cols mA) (data m)) [mA, mB]"
      by (simp add: operandShaped_def wellShaped_def)
    from addMatrices_wellShaped [OF this, of rt k] a Mat assms(3) dims show ?thesis
      by (auto simp: genericAdd_def operandShaped_def wellShaped_sum)
  qed
qed

lemma genericSubtract_shaped:
  assumes "operandShaped a" and "operandShaped b" and "genericSubtract rt k a b = Inr (r, k')"
  shows "operandShaped r"
proof (cases a)
  case (Scalar x)
  with assms(3) show ?thesis
    by (cases b) (auto simp: genericSubtract_def operandShaped_def)
next
  case (Mat mA)
  note a = Mat
  show ?thesis
  proof (cases b)
    case (Scalar y)
    with a assms(3) show ?thesis by (simp add: genericSubtract_def)
  next
    case (Mat mB)
    with a assms(3) have dims: "rows mA = rows mB" "cols mA = cols mB"
      by (auto simp: genericSubtract_def split: if_splits)
    with a Mat assms(1,2)
    have "list_all (\<lambda>m. gridShape (rows mA) (cols mA) (data m)) [mA, mB]"
      by (simp add: operandShaped_def wellShaped_def)
    from subtractMatrices_wellShaped [OF this, of rt k] a Mat assms(3) dims show ?thesis
      by (auto simp: genericSubtract_def operandShaped_def wellShaped_difference)
  qed
qed

lemma genericMultiply_shaped:
  assumes "operandShaped a" and "operandShaped b" and "genericMultiply rt k a b = Inr (r, k')"
  shows "operandShaped r"
proof (cases a)
  case (Scalar x)
  note a = Scalar
  show ?thesis
  proof (cases b)
    case (Scalar y)
    with a assms(3) show ?thesis by (auto simp: genericMultiply_def operandShaped_def)
  next
    case (Mat mB)
    with assms(2) have "wellShaped (fst (scalarOperation rt k mB x SCALAR_MUL))"
      by (simp add: operandShaped_def wellShaped_scalarOperation)
    with a Mat assms(3) show ?thesis
      by (auto simp: genericMultiply_def operandShaped_def split: prod.splits)
  qed
next
  case (Mat mA)
  note a = Mat
  show ?thesis
  proof (cases b)
    case (Scalar y)
    from a assms(1) have "wellShaped (fst (scalarOperation rt k mA y SCALAR_MUL))"
      by (simp add: operandShaped_def wellShaped_scalarOperation)
    with a Scalar assms(3) show ?thesis
      by (auto simp: genericMultiply_def operandShaped_def split: prod.splits)
  next
    case (Mat mB)
    with a assms(3) have dims: "cols mA = rows mB"
      by (auto simp: genericMultiply_def split: if_splits)
    from a Mat assms(1,2) have "wellShaped mA" "wellShaped mB"
      by (simp_all add: operandShaped_def)
    from multiplyTwoMatrices_wellShaped [OF this dims, of rt k] a Mat assms(3) dims
    show ?thesis
      by (auto simp: genericMultiply_def operandShaped_def wellShaped_product)
  qed
qed

lemma powerMatrix_shaped:
  assumes "wellShaped m" and "powerMatrix rt k m exponent = Inr (r, k')"
  shows "wellShaped r"
proof -
  from assms(2) have square: "rows m = cols m"
    by (auto simp: powerMatrix_def split: if_splits)
  show ?thesis
  proof (cases "exponent = 1")
    case True
    with assms show ?thesis
      by (auto simp: powerMatrix_def wellShaped_def split: if_splits)
  next
    case False
    from powerLoop_wellShaped [OF assms(1) square assms(1) refl refl, of rt exponent 1 k]
    obtain result k'' where loop: "powerLoop rt m exponent 1 (m, k) = Inr (result, k'')"
      and shaped: "wellShaped result" by auto
    with False assms(2) show ?thesis
      by (auto simp: powerMatrix_def wellShaped_def split: if_splits)
  qed
qed

lemma applyOperator_shaped:
  assumes "operandShaped a" and "operandShaped b" and "applyOperator rt k op a b = Inr (r, k')"
  shows "operandShaped r"
proof -
  consider "op = ''+''" | "op = ''-''" | "op = ''*''" | "op = ''^''"
    | "op \<noteq> ''+''" "op \<noteq> ''-''" "op \<noteq> ''*''" "op \<noteq> ''^''"
    by blast
  then show ?thesis
  proof cases
    case 1
    with assms show ?thesis by (auto simp: applyOperator_def dest: genericAdd_shaped)
  next
    case 2
    with assms show ?thesis by (auto simp: applyOperator_def dest: genericSubtract_shaped)
  next
    case 3
    with assms show ?thesis by (auto simp: applyOperator_def dest: genericMultiply_shaped)
  next
    case 4
    with assms show ?thesis
      by (auto simp: applyOperator_def operandShaped_def
          split: operand.splits sum.splits dest: powerMatrix_shaped)
  next
    case 5
    with assms(3) show ?thesis by (simp add: applyOperator_def)
  qed
qed

lemma pushResult_shaped:
  assumes "stateShaped st" and "operandShaped val"
  shows "stateShaped (pushResult matrixMap val st)"
  using assms
  by (auto simp: pushResult_def stateShaped_def operandShaped_def split: operand.splits)

lemma pop_shaped:
  assumes "list_all P xs" and "pop xs = (Some x, rest)"
  shows "P x \<and> list_all P rest"
proof -
  from assms(2) have "xs \<noteq> []" and "x = last xs" and "rest = butlast xs"
    by (auto simp: pop_def split: if_splits)
  with assms(1) show ?thesis
    by (auto simp: list_all_iff dest: in_set_butlastD)
qed

lemma pop_rest_shaped:
  assumes "list_all P xs" and "pop xs = (x, rest)"
  shows "list_all P rest"
  using assms by (auto simp: pop_def list_all_iff split: if_splits dest: in_set_butlastD)

lemma evalToken_shaped:
  assumes inputs: "list_all wellShaped (map snd matrixMap)"
    and st: "stateShaped st"
    and run: "evalToken rt matrixMap token st = Inr st'"
  shows "stateShaped st'"
proof -
  consider "type token = NUMBER" | "type token = IDENTIFIER"
    | "type token = OPERATOR" "value token = [CHR 0x27]"
    | "type token = OPERATOR" "value token \<noteq> [CHR 0x27]"
    | "type token \<noteq> NUMBER" "type token \<noteq> IDENTIFIER" "type token \<noteq> OPERATOR"
    by blast
  then show ?thesis
  proof cases
    case 1
    with st run show ?thesis
      by (auto simp: evalToken_def stateShaped_def operandShaped_def)
  next
    case 2
    with run obtain mat where found: "map_of matrixMap (toUpperCase (value token)) = Some mat"
      and st': "st' = st\<lparr>stack := stack st @ [Mat mat]\<rparr>"
      by (auto simp: evalToken_def split: option.splits)
    from found have "mat \<in> snd ` set matrixMap"
      by (force dest: map_of_SomeD)
    with inputs have "wellShaped mat" by (auto simp: list_all_iff)
    with st st' show ?thesis
      by (simp add: stateShaped_def operandShaped_def)
  next
    case 3
    with run obtain a rest r k' where popped: "pop (stack st) = (Some (Mat a), rest)"
      and tr: "transposeMatrix rt (uuidCount st) a = Inr (r, k')"
      and st': "st' = pushResult matrixMap (Mat r) (st\<lparr>stack := rest, uuidCount := k'\<rparr>)"
      by (auto simp: evalToken_def split: prod.splits option.splits operand.splits sum.splits)
    from st popped have a: "wellShaped a" and rest: "list_all operandShaped rest"
      using pop_shaped [of operandShaped "stack st" "Mat a" rest]
      by (simp_all add: stateShaped_def operandShaped_def)
    from a tr have "wellShaped r"
      by (auto simp: transposeMatrix_wellShaped wellShaped_transposed)
    moreover from st rest have "stateShaped (st\<lparr>stack := rest, uuidCount := k'\<rparr>)"
      by (simp add: stateShaped_def)
    ultimately show ?thesis
      unfolding st' by (intro pushResult_shaped) (simp_all add: operandShaped_def)
  next
    case 4
    with run obtain a b rest rest' r k' where popb: "pop (stack st) = (Some b, rest)"
      and popa: "pop rest = (Some a, rest')"
      and ap: "applyOperator rt (uuidCount st) (value token) a b = Inr (r, k')"
      and st': "st' = pushResult matrixMap r (st\<lparr>stack := rest', uuidCount := k'\<rparr>)"
      by (auto simp: evalToken_def split: prod.splits option.splits sum.splits)
    from st popb have b: "operandShaped b" and rest: "list_all operandShaped rest"
      using pop_shaped [of operandShaped "stack st" b rest] by (simp_all add: stateShaped_def)
    from rest popa have a: "operandShaped a" and rest': "list_all operandShaped rest'"
      using pop_shaped [of operandShaped rest a rest'] by simp_all
    from applyOperator_shaped [OF a b ap] have "operandShaped r" .
    moreover from st rest' have "stateShaped (st\<lparr>stack := rest', uuidCount := k'\<rparr>)"
      by (simp add: stateShaped_def)
    ultimately show ?thesis
      unfolding st' by (intro pushResult_shaped)
  next
    case 5
    with st run show ?thesis by (simp add: evalToken_def)
  qed
qed

lemma forEach_invariant:
  assumes "P s" and "forEach xs body s = Inr s'"
    and "\<And>x t t'. P t \<Longrightarrow> body x t = Inr t' \<Longrightarrow> P t'"
  shows "P s'"
  using assms(1,2)
proof (induction xs arbitrary: s)
  case Nil
  then show ?case by simp
next
  case (Cons x xs)
  from Cons.prems(2) obtain t where t: "body x s = Inr t" and rest: "forEach xs body t = Inr s'"
    by (auto split: sum.splits)
  from assms(3) [OF Cons.prems(1) t] have "P t" .
  from Cons.IH [OF this rest] show ?case .
qed

text \<open>
  Claim C9. If every supplied matrix has exactly \<open>rows\<close> rows of exactly \<open>cols\<close> cells and
  the evaluation of an expression succeeds, then every matrix of the returned trace has
  exactly its \<open>rows\<close> rows of exactly its \<open>cols\<close> cells.
\<close>

theorem trace_keeps_shape_invariant:
  assumes "\<forall>m\<in>set availableMatrices.
      length (data m) = rows m \<and> (\<forall>row\<in>set (data m). length row = cols m)"
    and "evaluateExpression rt expression availableMatrices = Inr trace"
  shows "\<forall>m\<in>set trace.
      length (data m) = rows m \<and> (\<forall>row\<in>set (data m). length row = cols m)"
proof -
  define mm where "mm = buildMatrixMap availableMatrices"
  from assms(1) have "list_all wellShaped availableMatrices"
    by (simp add: list_all_iff wellShaped_iff)
  with values_buildMatrixMap [of availableMatrices]
  have inputs: "list_all wellShaped (map snd mm)"
    by (auto simp: list_all_iff mm_def)
  from assms(2) obtain st
    where run: "forEach (toRPN (tokenize expression)) (evalToken rt mm)
        \<lparr>stack = [], executionTrace = [], uuidCount = 0\<rparr> = Inr st"
      and trace: "trace = executionTrace st"
    by (auto simp: evaluateExpression_def Let_def mm_def
        split: if_splits sum.splits operand.splits)
  have "stateShaped \<lparr>stack = [], executionTrace = [], uuidCount = 0\<rparr>"
    by (simp add: stateShaped_def)
  from this run have "stateShaped st"
    by (rule forEach_invariant) (rule evalToken_shaped [OF inputs])
  with trace show ?thesis
    by (simp add: stateShaped_def list_all_iff wellShaped_iff)
qed

section \<open>The third power\<close>

lemma rpn_A_cubed:
  "toRPN (tokenize ''A^3'') =
     [\<lparr>type = IDENTIFIER, value = ''A''\<rparr>, \<lparr>type = NUMBER, value = ''3''\<rparr>,
      \<lparr>type = OPERATOR, value = ''^''\<rparr>]"
  by (simp add: isDigit_def isLetter_def isOpChar_def scanNumber_def toRPN_def rpnStep_def)

lemma parseFloat_3: "parseFloat rt ''3'' = 3"
  by (simp add: parseFloat_def digitsToNat_def isDigit_def toDouble_numeral)

lemma powerMatrix_cube:
  assumes "wellShaped A" and "rows A = cols A"
  shows "powerMatrix rt k A 3 =
    Inr (\<lparr>id' = randomUUID rt (Suc (Suc k)), name = name A @ ''^'' @ numToString rt 3,
          rows = rows A, cols = cols A,
          data = productGrid rt
                   \<lparr>id' = randomUUID rt k,
                    name = ''('' @ name A @ '' '' @ middleDot @ '' '' @ name A @ '')'',
                    rows = rows A, cols = cols A, data = productGrid rt A A\<rparr> A\<rparr>,
         Suc (Suc (Suc k)))"
proof -
  define P2 where "P2 = \<lparr>id' = randomUUID rt k,
    name = ''('' @ name A @ '' '' @ middleDot @ '' '' @ name A @ '')'',
    rows = rows A, cols = cols A, data = productGrid rt A A\<rparr>"
  define P3 where "P3 = \<lparr>id' = randomUUID rt (Suc k),
    name = ''('' @ name P2 @ '' '' @ middleDot @ '' '' @ name A @ '')'',
    rows = rows P2, cols = cols A, data = productGrid rt P2 A\<rparr>"
  have first: "multiplyTwoMatrices rt k A A = Inr (P2, Suc k)"
    using assms by (simp add: multiplyTwoMatrices_wellShaped P2_def)
  have "wellShaped P2"
    unfolding P2_def by (rule wellShaped_product)
  moreover have "cols P2 = rows A"
    using assms(2) by (simp add: P2_def)
  ultimately have second: "multiplyTwoMatrices rt (Suc k) P2 A = Inr (P3, Suc (Suc k))"
    using assms(1) by (simp add: multiplyTwoMatrices_wellShaped P3_def)
  have "powerLoop rt A 3 1 (A, k) = Inr (P3, Suc (Suc k))"
    by (simp add: powerLoop_step powerLoop_done first second)
  then show ?thesis
    using assms(2) by (simp add: powerMatrix_def isInteger_def P3_def P2_def)
qed

lemma evaluate_A_cubed:
  assumes "map_of (buildMatrixMap availableMatrices) ''A'' = Some A"
    and "wellShaped A" and "rows A = cols A"
    and "randomUUID rt 2 \<notin> id' ` set availableMatrices"
  shows "evaluateExpression rt ''A^3'' availableMatrices =
      Inr [\<lparr>id' = randomUUID rt 2, name = name A @ ''^'' @ numToString rt 3,
            rows = rows A, cols = cols A,
            data = productGrid rt
                     \<lparr>id' = randomUUID rt 0,
                      name = ''('' @ name A @ '' '' @ middleDot @ '' '' @ name A @ '')'',
                      rows = rows A, cols = cols A, data = productGrid rt A A\<rparr> A\<rparr>]"
proof -
  define mm where "mm = buildMatrixMap availableMatrices"
  define P2 where "P2 = \<lparr>id' = randomUUID rt 0,
    name = ''('' @ name A @ '' '' @ middleDot @ '' '' @ name A @ '')'',
    rows = rows A, cols = cols A, data = productGrid rt A A\<rparr>"
  define R where "R = \<lparr>id' = randomUUID rt 2, name = name A @ ''^'' @ numToString rt 3,
    rows = rows A, cols = cols A, data = productGrid rt P2 A\<rparr>"
  have power: "powerMatrix rt 0 A 3 = Inr (R, 3)"
    by (simp add: powerMatrix_cube [OF assms(2,3)] R_def P2_def numeral_2_eq_2 numeral_3_eq_3)
  have fresh: "\<not> list_ex (\<lambda>inp. id' inp = id' R) (map snd mm)"
    using fresh_not_input [OF assms(4)] by (simp add: R_def mm_def)
  have run: "forEach
       [\<lparr>type = IDENTIFIER, value = ''A''\<rparr>, \<lparr>type = NUMBER, value = ''3''\<rparr>,
        \<lparr>type = OPERATOR, value = ''^''\<rparr>]
       (evalToken rt mm) \<lparr>stack = [], executionTrace = [], uuidCount = 0\<rparr> =
     Inr \<lparr>stack = [Mat R], executionTrace = [R], uuidCount = 3\<rparr>"
    using assms(1) fresh
    by (simp add: evalToken_def toUpperCase_A parseFloat_3 pop_def applyOperator_def power
        pushResult_def mm_def)
  have nonblank: "trim ''A^3'' \<noteq> []"
    by (rule trim_not_empty) (simp add: isSpace_def)
  have "evaluateExpression rt ''A^3'' availableMatrices = Inr [R]"
    unfolding evaluateExpression_def Let_def rpn_A_cubed
    using nonblank run by (simp add: mm_def)
  then show ?thesis
    by (simp add: R_def P2_def)
qed

lemma productGrid_sampleA:
  "productGrid rt sampleA sampleA = [[7, 10], [15, 22]]"
  "productGrid rt \<lparr>id' = u, name = n, rows = 2, cols = 2, data = [[7, 10], [15, 22]]\<rparr> sampleA =
     [[37, 54], [81, 118]]"
  by (simp_all add: productGrid_def dotProduct_def sampleA_def numeral_2_eq_2 numPlus_def
      numTimes_def toDouble_numeral toFixed4_numeral)

lemma evaluate_sample_cube:
  "evaluateExpression sampleRuntime ''A^3'' [sampleA] =
     Inr [\<lparr>id' = ''uxx'', name = ''A^3'', rows = 2, cols = 2,
           data = [[37, 54], [81, 118]]\<rparr>]"
proof -
  have "wellShaped sampleA"
    by (simp add: wellShaped_def gridShape_def sampleA_def)
  moreover have "rows sampleA = 2" "cols sampleA = 2" "name sampleA = ''A''"
    by (simp_all add: sampleA_def)
  moreover have "randomUUID sampleRuntime 2 \<notin> id' ` set [sampleA]"
    by (simp add: sampleRuntime_def sampleUUID_def sampleA_def)
  ultimately show ?thesis
    using evaluate_A_cubed [of "[sampleA]" sampleA sampleRuntime]
    by (simp add: buildMatrixMap_sampleA productGrid_sampleA)
      (simp add: sampleRuntime_def sampleUUID_def sampleNumToString_def numeral_2_eq_2)
qed

text \<open>
  Claim C1, as the source has it. Let the identifier \<open>A\<close> resolve to a square matrix \<open>A\<close> of
  the shape its \<open>rows\<close> and \<open>cols\<close> announce, and let the identifier that the host hands out
  for the result differ from those of the supplied matrices. Then the expression \<open>A^3\<close>
  returns a trace of one matrix, the power, named after \<open>A\<close> and the exponent. Its data is
  the product of \<open>A . A\<close> with \<open>A\<close>, two sequential multiplications in the arithmetic of the
  host that each round every cell to four decimals; the intermediate square is the result
  of the first multiplication and is no element of the trace.
\<close>

theorem cube_trace_is_single_matrix:
  assumes "map_of (buildMatrixMap availableMatrices) ''A'' = Some A"
    and "length (data A) = rows A \<and> (\<forall>row\<in>set (data A). length row = cols A)"
    and "rows A = cols A"
    and "randomUUID rt 2 \<notin> id' ` set availableMatrices"
  shows "evaluateExpression rt ''A^3'' availableMatrices =
      Inr [\<lparr>id' = randomUUID rt 2, name = name A @ ''^'' @ numToString rt 3,
            rows = rows A, cols = cols A,
            data = productGrid rt
                     \<lparr>id' = randomUUID rt 0,
                      name = ''('' @ name A @ '' '' @ middleDot @ '' '' @ name A @ '')'',
                      rows = rows A, cols = cols A, data = productGrid rt A A\<rparr> A\<rparr>] \<and>
    multiplyTwoMatrices rt 0 A A =
      Inr (\<lparr>id' = randomUUID rt 0,
            name = ''('' @ name A @ '' '' @ middleDot @ '' '' @ name A @ '')'',
            rows = rows A, cols = cols A, data = productGrid rt A A\<rparr>, 1) \<and>
    multiplyTwoMatrices rt 1
      \<lparr>id' = randomUUID rt 0,
       name = ''('' @ name A @ '' '' @ middleDot @ '' '' @ name A @ '')'',
       rows = rows A, cols = cols A, data = productGrid rt A A\<rparr> A =
      Inr (\<lparr>id' = randomUUID rt 1,
            name = ''('' @ (''('' @ name A @ '' '' @ middleDot @ '' '' @ name A @ '')'') @
                   '' '' @ middleDot @ '' '' @ name A @ '')'',
            rows = rows A, cols = cols A,
            data = productGrid rt
                     \<lparr>id' = randomUUID rt 0,
                      name = ''('' @ name A @ '' '' @ middleDot @ '' '' @ name A @ '')'',
                      rows = rows A, cols = cols A, data = productGrid rt A A\<rparr> A\<rparr>, 2)"
proof -
  define P2 where "P2 = \<lparr>id' = randomUUID rt 0,
    name = ''('' @ name A @ '' '' @ middleDot @ '' '' @ name A @ '')'',
    rows = rows A, cols = cols A, data = productGrid rt A A\<rparr>"
  from assms(2) have shaped: "wellShaped A"
    by (simp add: wellShaped_iff)
  have first: "multiplyTwoMatrices rt 0 A A = Inr (P2, 1)"
    using shaped assms(3) by (simp add: multiplyTwoMatrices_wellShaped P2_def)
  have "wellShaped P2"
    unfolding P2_def by (rule wellShaped_product)
  moreover have "cols P2 = rows A"
    using assms(3) by (simp add: P2_def)
  ultimately have second: "multiplyTwoMatrices rt 1 P2 A =
      Inr (\<lparr>id' = randomUUID rt 1,
            name = ''('' @ name P2 @ '' '' @ middleDot @ '' '' @ name A @ '')'',
            rows = rows P2, cols = cols A, data = productGrid rt P2 A\<rparr>, 2)"
    using shaped by (simp add: multiplyTwoMatrices_wellShaped)
  from first second evaluate_A_cubed [OF assms(1) shaped assms(3,4)]
  show ?thesis
    by (simp add: P2_def)
qed

text \<open>
  The witness is the matrix \<open>B\<close> alone in the list, which the identifier \<open>A\<close> reaches
  through the positional letter.
\<close>

theorem cube_trace_witness:
  "evaluateExpression sampleRuntime ''A^3'' [sampleB] =
     Inr [\<lparr>id' = ''uxx'', name = ''B^3'', rows = 2, cols = 2,
           data = [[881, 1026], [1197, 1394]]\<rparr>]"
proof -
  have lookup: "map_of (buildMatrixMap [sampleB]) ''A'' = Some sampleB"
    by (simp add: buildMatrixMap_def registerMatrix_def sampleB_def toUpperCase_def
        toUpperChar_def fromCharCode_65 Let_def)
  have shape: "length (data sampleB) = rows sampleB \<and>
      (\<forall>row\<in>set (data sampleB). length row = cols sampleB)"
    and square: "rows sampleB = cols sampleB"
    and fresh: "randomUUID sampleRuntime 2 \<notin> id' ` set [sampleB]"
    by (simp_all add: sampleB_def sampleRuntime_def sampleUUID_def)
  have square': "productGrid rt sampleB sampleB = [[67, 78], [91, 106]]" for rt
    by (simp add: productGrid_def dotProduct_def sampleB_def numeral_2_eq_2 numPlus_def
        numTimes_def toDouble_numeral toFixed4_numeral)
  have cube: "productGrid rt \<lparr>id' = u, name = n, rows = 2, cols = 2,
      data = [[67, 78], [91, 106]]\<rparr> sampleB = [[881, 1026], [1197, 1394]]" for rt u n
    by (simp add: productGrid_def dotProduct_def sampleB_def numeral_2_eq_2 numPlus_def
        numTimes_def toDouble_numeral toFixed4_numeral)
  have fields: "rows sampleB = 2" "cols sampleB = 2" "name sampleB = ''B''"
    by (simp_all add: sampleB_def)
  from cube_trace_is_single_matrix [OF lookup shape square fresh, THEN conjunct1]
  show ?thesis
    by (simp add: fields square' cube)
      (simp add: sampleRuntime_def sampleUUID_def sampleNumToString_def numeral_2_eq_2)
qed

text \<open>
  The claim as stated, with a trace of length 2, fails on the matrix \<open>[[1,2],[3,4]]\<close>: the
  trace is the cube alone.
\<close>

theorem cube_trace_counterexample:
  "evaluateExpression sampleRuntime ''A^3'' [sampleA] =
     Inr [\<lparr>id' = ''uxx'', name = ''A^3'', rows = 2, cols = 2,
           data = [[37, 54], [81, 118]]\<rparr>] \<and>
   (case evaluateExpression sampleRuntime ''A^3'' [sampleA] of
      Inl e \<Rightarrow> 0 | Inr trace \<Rightarrow> length trace) = 1"
  by (simp add: evaluate_sample_cube)

text \<open>The witness of the shape invariant (claim C9) is the same evaluation.\<close>

theorem trace_keeps_shape_invariant_witness:
  "evaluateExpression sampleRuntime ''A^3'' [sampleA] =
     Inr [\<lparr>id' = ''uxx'', name = ''A^3'', rows = 2, cols = 2,
           data = [[37, 54], [81, 118]]\<rparr>] \<and>
   list_all (\<lambda>m. length (data m) = rows m \<and> list_all (\<lambda>row. length row = cols m) (data m))
     [\<lparr>id' = ''uxx'', name = ''A^3'', rows = 2, cols = 2, data = [[37, 54], [81, 118]]\<rparr>]"
proof -
  have "\<forall>m\<in>set [sampleA].
      length (data m) = rows m \<and> (\<forall>row\<in>set (data m). length row = cols m)"
    by (simp add: sampleA_def)
  from trace_keeps_shape_invariant [OF this evaluate_sample_cube] evaluate_sample_cube
  show ?thesis
    by (simp add: list_all_iff)
qed

section \<open>The engine on a store of arrays\<close>

text \<open>
  The data of a matrix is an array of references to arrays of numbers, and the engine both
  shares such arrays between matrix objects (\<open>powerMatrix\<close> with exponent 1 copies the
  reference of its argument into the result) and writes into arrays: every primitive fills
  the grid that \<open>createEmptyMatrix\<close> has allocated, cell by cell. The second model keeps the
  arrays in a store, by address; the field \<open>data\<close> of a matrix is the address of its array
  of row references. An array is allocated at the next free address. The functions are
  those of the first model, with the store threaded through them; a failure carries the
  store in which it was raised. A reference to no array of the store has no counterpart in
  the host: reading through it ends in \<open>OutsideModel\<close>.
\<close>

type_synonym addr = nat

record Store =
  grids :: "addr list list"
  numberArrays :: "real list list"

type_synonym MatrixRef = "addr MatrixOf"

text \<open>
  \<open>Array.from({ length: rows }, () => Array(cols).fill(initialValue))\<close> allocates a new array
  of numbers for every row, and the array of their references.
\<close>

definition createEmptyMatrixS :: "nat \<Rightarrow> nat \<Rightarrow> real \<Rightarrow> Store \<Rightarrow> addr \<times> Store" where
  "createEmptyMatrixS rows' cols' initialValue S =
     (length (grids S),
      S\<lparr>numberArrays := numberArrays S @ replicate rows' (replicate cols' initialValue),
        grids := grids S @ [[length (numberArrays S)..<length (numberArrays S) + rows']]\<rparr>)"

definition cellAtS :: "Store \<Rightarrow> addr \<Rightarrow> nat \<Rightarrow> nat \<Rightarrow> error + real" where
  "cellAtS S g i j =
     (if length (grids S) \<le> g then Inl OutsideModel
      else if length (grids S ! g) \<le> i then Inl JsTypeError
      else if length (numberArrays S) \<le> grids S ! g ! i then Inl OutsideModel
      else if length (numberArrays S ! (grids S ! g ! i)) \<le> j then Inl OutsideModel
      else Inr (numberArrays S ! (grids S ! g ! i) ! j))"

definition setCellS :: "Store \<Rightarrow> addr \<Rightarrow> nat \<Rightarrow> nat \<Rightarrow> real \<Rightarrow> error \<times> Store + Store" where
  "setCellS S g i j v =
     (if length (grids S) \<le> g then Inl (OutsideModel, S)
      else if length (grids S ! g) \<le> i then Inl (JsTypeError, S)
      else if length (numberArrays S) \<le> grids S ! g ! i then Inl (OutsideModel, S)
      else if length (numberArrays S ! (grids S ! g ! i)) \<le> j then Inl (OutsideModel, S)
      else Inr (S\<lparr>numberArrays :=
                   (numberArrays S)[grids S ! g ! i := (numberArrays S ! (grids S ! g ! i))[j := v]]\<rparr>))"

definition addCellS :: "runtime \<Rightarrow> Store \<Rightarrow> MatrixRef list \<Rightarrow> nat \<Rightarrow> nat \<Rightarrow> error + real" where
  "addCellS rt S matrices i j =
     forEach matrices
       (\<lambda>m sumAcc. case cellAtS S (data m) i j of Inl e \<Rightarrow> Inl e | Inr val \<Rightarrow> Inr (numPlus rt sumAcc val)) 0"

definition addMatricesS ::
  "runtime \<Rightarrow> nat \<Rightarrow> MatrixRef list \<Rightarrow> Store \<Rightarrow> error \<times> Store + (MatrixRef \<times> nat) \<times> Store" where
  "addMatricesS rt k matrices S =
     (case matrices of
        [] \<Rightarrow> Inl (JsTypeError, S)
      | first # _ \<Rightarrow>
          (case createEmptyMatrixS (rows first) (cols first) 0 S of
             (resultData, S1) \<Rightarrow>
               (case forLoop 0 (rows first)
                       (\<lambda>i S. forLoop 0 (cols first)
                          (\<lambda>j S.
                             case addCellS rt S matrices i j of
                               Inl e \<Rightarrow> Inl (e, S)
                             | Inr sumAcc \<Rightarrow> setCellS S resultData i j sumAcc)
                          S)
                       S1 of
                  Inl failure \<Rightarrow> Inl failure
                | Inr S2 \<Rightarrow>
                    Inr ((\<lparr>id' = randomUUID rt k,
                           name = (if length matrices \<le> 3
                                   then ''('' @ join '' + '' (map name matrices) @ '')''
                                   else ''Suma Total''),
                           rows = rows first, cols = cols first, data = resultData\<rparr>,
                          Suc k), S2))))"

definition subtractCellS :: "runtime \<Rightarrow> Store \<Rightarrow> MatrixRef list \<Rightarrow> nat \<Rightarrow> nat \<Rightarrow> error + real" where
  "subtractCellS rt S matrices i j =
     (case matrices of
        [] \<Rightarrow> Inl JsTypeError
      | first # others \<Rightarrow>
          (case cellAtS S (data first) i j of
             Inl e \<Rightarrow> Inl e
           | Inr val0 \<Rightarrow>
               forEach others
                 (\<lambda>m val. case cellAtS S (data m) i j of
                             Inl e \<Rightarrow> Inl e
                           | Inr subVal \<Rightarrow> Inr (numMinus rt val subVal)) val0))"

definition subtractMatricesS ::
  "runtime \<Rightarrow> nat \<Rightarrow> MatrixRef list \<Rightarrow> Store \<Rightarrow> error \<times> Store + (MatrixRef \<times> nat) \<times> Store" where
  "subtractMatricesS rt k matrices S =
     (case matrices of
        [] \<Rightarrow> Inl (JsTypeError, S)
      | first # _ \<Rightarrow>
          (case createEmptyMatrixS (rows first) (cols first) 0 S of
             (resultData, S1) \<Rightarrow>
               (case forLoop 0 (rows first)
                       (\<lambda>i S. forLoop 0 (cols first)
                          (\<lambda>j S.
                             case subtractCellS rt S matrices i j of
                               Inl e \<Rightarrow> Inl (e, S)
                             | Inr val \<Rightarrow> setCellS S resultData i j val)
                          S)
                       S1 of
                  Inl failure \<Rightarrow> Inl failure
                | Inr S2 \<Rightarrow>
                    Inr ((\<lparr>id' = randomUUID rt k,
                           name = (if length matrices \<le> 3
                                   then ''('' @ join '' - '' (map name matrices) @ '')''
                                   else ''Resta Secuencial''),
                           rows = rows first, cols = cols first, data = resultData\<rparr>,
                          Suc k), S2))))"

definition multiplyCellS ::
  "runtime \<Rightarrow> Store \<Rightarrow> MatrixRef \<Rightarrow> MatrixRef \<Rightarrow> nat \<Rightarrow> nat \<Rightarrow> error + real" where
  "multiplyCellS rt S A B i j =
     forLoop 0 (cols A)
       (\<lambda>k sumAcc. case cellAtS S (data A) i k of
                   Inl e \<Rightarrow> Inl e
                 | Inr valA \<Rightarrow>
                     (case cellAtS S (data B) k j of
                        Inl e \<Rightarrow> Inl e
                      | Inr valB \<Rightarrow> Inr (numPlus rt sumAcc (numTimes rt valA valB)))) 0"

definition multiplyTwoMatricesS ::
  "runtime \<Rightarrow> nat \<Rightarrow> MatrixRef \<Rightarrow> MatrixRef \<Rightarrow> Store \<Rightarrow>
     error \<times> Store + (MatrixRef \<times> nat) \<times> Store" where
  "multiplyTwoMatricesS rt k A B S =
     (case createEmptyMatrixS (rows A) (cols B) 0 S of
        (resultData, S1) \<Rightarrow>
          (case forLoop 0 (rows A)
                  (\<lambda>i S. forLoop 0 (cols B)
                     (\<lambda>j S.
                        case multiplyCellS rt S A B i j of
                          Inl e \<Rightarrow> Inl (e, S)
                        | Inr sumAcc \<Rightarrow> setCellS S resultData i j (toFixed4 rt sumAcc))
                     S)
                  S1 of
             Inl failure \<Rightarrow> Inl failure
           | Inr S2 \<Rightarrow>
               Inr ((\<lparr>id' = randomUUID rt k,
                      name = ''('' @ name A @ '' '' @ middleDot @ '' '' @ name B @ '')'',
                      rows = rows A, cols = cols B, data = resultData\<rparr>, Suc k), S2)))"

definition transposeMatrixS ::
  "runtime \<Rightarrow> nat \<Rightarrow> MatrixRef \<Rightarrow> Store \<Rightarrow> error \<times> Store + (MatrixRef \<times> nat) \<times> Store" where
  "transposeMatrixS rt k matrix S =
     (case createEmptyMatrixS (cols matrix) (rows matrix) 0 S of
        (resultData, S1) \<Rightarrow>
          (case forLoop 0 (rows matrix)
                  (\<lambda>i S. forLoop 0 (cols matrix)
                     (\<lambda>j S.
                        case cellAtS S (data matrix) i j of
                          Inl e \<Rightarrow> Inl (e, S)
                        | Inr v \<Rightarrow> setCellS S resultData j i v)
                     S)
                  S1 of
             Inl failure \<Rightarrow> Inl failure
           | Inr S2 \<Rightarrow>
               Inr ((\<lparr>id' = randomUUID rt k, name = name matrix @ superscriptT,
                      rows = cols matrix, cols = rows matrix, data = resultData\<rparr>, Suc k),
                    S2)))"

function powerLoopS ::
  "runtime \<Rightarrow> MatrixRef \<Rightarrow> real \<Rightarrow> nat \<Rightarrow> (MatrixRef \<times> nat) \<times> Store \<Rightarrow>
     error \<times> Store + (MatrixRef \<times> nat) \<times> Store" where
  "powerLoopS rt matrix exponent i ((result, k), S) =
     (if real i < exponent
      then (case multiplyTwoMatricesS rt k result matrix S of
              Inl failure \<Rightarrow> Inl failure
            | Inr nextResult \<Rightarrow> powerLoopS rt matrix exponent (Suc i) nextResult)
      else Inr ((result, k), S))"
  by pat_completeness auto
termination
proof (relation "measure (\<lambda>(rt, matrix, exponent, i, s). nat \<lceil>exponent\<rceil> - i)")
  fix exponent :: real and i :: nat
  fix rt :: runtime and matrix result :: MatrixRef and k :: nat and S :: Store
    and nextResult :: "(MatrixRef \<times> nat) \<times> Store"
  assume "real i < exponent"
  then have "int i < \<lceil>exponent\<rceil>" by linarith
  then have "i < nat \<lceil>exponent\<rceil>" by linarith
  then show "((rt, matrix, exponent, Suc i, nextResult), (rt, matrix, exponent, i, (result, k), S))
      \<in> measure (\<lambda>(rt, matrix, exponent, i, s). nat \<lceil>exponent\<rceil> - i)"
    by simp
qed simp

declare powerLoopS.simps [simp del]

definition powerMatrixS ::
  "runtime \<Rightarrow> nat \<Rightarrow> MatrixRef \<Rightarrow> real \<Rightarrow> Store \<Rightarrow> error \<times> Store + (MatrixRef \<times> nat) \<times> Store"
  where
  "powerMatrixS rt k matrix exponent S =
     (if rows matrix \<noteq> cols matrix then Inl (DimensionMismatch, S)
      else if \<not> isInteger exponent then Inl (InvalidExponent, S)
      else if exponent < 1 then Inl (InvalidExponent, S)
      else if exponent = 1
      then Inr ((matrix\<lparr>id' := randomUUID rt k, name := name matrix @ ''^1''\<rparr>, Suc k), S)
      else (case powerLoopS rt matrix exponent 1 ((matrix, k), S) of
              Inl failure \<Rightarrow> Inl failure
            | Inr ((result, k'), S') \<Rightarrow>
                Inr ((result\<lparr>name := name matrix @ ''^'' @ numToString rt exponent,
                             id' := randomUUID rt k'\<rparr>, Suc k'), S')))"

text \<open>
  \<open>matrix.data.map((row, i) => row.map(...))\<close> allocates one new array of numbers for each
  row and a new array for their references.
\<close>

definition rowsAtS :: "Store \<Rightarrow> addr \<Rightarrow> real list list option" where
  "rowsAtS S g =
     (if length (grids S) \<le> g then None
      else if list_ex (\<lambda>r. length (numberArrays S) \<le> r) (grids S ! g) then None
      else Some (map (\<lambda>r. numberArrays S ! r) (grids S ! g)))"

definition scalarOperationS ::
  "runtime \<Rightarrow> nat \<Rightarrow> MatrixRef \<Rightarrow> real \<Rightarrow> OperationType \<Rightarrow> Store \<Rightarrow>
     error \<times> Store + (MatrixRef \<times> nat) \<times> Store" where
  "scalarOperationS rt k matrix scalar type' S =
     (case rowsAtS S (data matrix) of
        None \<Rightarrow> Inl (OutsideModel, S)
      | Some rowArrays \<Rightarrow>
          Inr ((\<lparr>id' = randomUUID rt k,
                 name = numToString rt scalar @ ''('' @ name matrix @ '')'',
                 rows = rows matrix, cols = cols matrix, data = length (grids S)\<rparr>, Suc k),
               S\<lparr>numberArrays :=
                    numberArrays S @ map (map (\<lambda>val. scalarCell rt type' val scalar)) rowArrays,
                  grids :=
                    grids S @
                    [[length (numberArrays S)..<length (numberArrays S) + length rowArrays]]\<rparr>))"

definition genericMultiplyS ::
  "runtime \<Rightarrow> nat \<Rightarrow> addr operand \<Rightarrow> addr operand \<Rightarrow> Store \<Rightarrow>
     error \<times> Store + (addr operand \<times> nat) \<times> Store" where
  "genericMultiplyS rt k a b S =
     (case (a, b) of
        (Scalar x, Scalar y) \<Rightarrow> Inr ((Scalar (numTimes rt x y), k), S)
      | (Scalar x, Mat mB) \<Rightarrow>
          (case scalarOperationS rt k mB x SCALAR_MUL S of
             Inl failure \<Rightarrow> Inl failure
           | Inr ((r, k'), S') \<Rightarrow> Inr ((Mat r, k'), S'))
      | (Mat mA, Scalar y) \<Rightarrow>
          (case scalarOperationS rt k mA y SCALAR_MUL S of
             Inl failure \<Rightarrow> Inl failure
           | Inr ((r, k'), S') \<Rightarrow> Inr ((Mat r, k'), S'))
      | (Mat mA, Mat mB) \<Rightarrow>
          if cols mA \<noteq> rows mB then Inl (DimensionMismatch, S)
          else (case multiplyTwoMatricesS rt k mA mB S of
                  Inl failure \<Rightarrow> Inl failure
                | Inr ((r, k'), S') \<Rightarrow> Inr ((Mat r, k'), S')))"

definition genericAddS ::
  "runtime \<Rightarrow> nat \<Rightarrow> addr operand \<Rightarrow> addr operand \<Rightarrow> Store \<Rightarrow>
     error \<times> Store + (addr operand \<times> nat) \<times> Store" where
  "genericAddS rt k a b S =
     (case (a, b) of
        (Scalar x, Scalar y) \<Rightarrow> Inr ((Scalar (numPlus rt x y), k), S)
      | (Mat mA, Mat mB) \<Rightarrow>
          if rows mA \<noteq> rows mB then Inl (DimensionMismatch, S)
          else if cols mA \<noteq> cols mB then Inl (DimensionMismatch, S)
          else (case addMatricesS rt k [mA, mB] S of
                  Inl failure \<Rightarrow> Inl failure
                | Inr ((r, k'), S') \<Rightarrow> Inr ((Mat r, k'), S'))
      | _ \<Rightarrow> Inl (ScalarMatrixAdditionUnsupported, S))"

definition genericSubtractS ::
  "runtime \<Rightarrow> nat \<Rightarrow> addr operand \<Rightarrow> addr operand \<Rightarrow> Store \<Rightarrow>
     error \<times> Store + (addr operand \<times> nat) \<times> Store" where
  "genericSubtractS rt k a b S =
     (case (a, b) of
        (Scalar x, Scalar y) \<Rightarrow> Inr ((Scalar (numMinus rt x y), k), S)
      | (Mat mA, Mat mB) \<Rightarrow>
          if rows mA \<noteq> rows mB then Inl (DimensionMismatch, S)
          else if cols mA \<noteq> cols mB then Inl (DimensionMismatch, S)
          else (case subtractMatricesS rt k [mA, mB] S of
                  Inl failure \<Rightarrow> Inl failure
                | Inr ((r, k'), S') \<Rightarrow> Inr ((Mat r, k'), S'))
      | _ \<Rightarrow> Inl (ScalarMatrixAdditionUnsupported, S))"

definition applyOperatorS ::
  "runtime \<Rightarrow> nat \<Rightarrow> string \<Rightarrow> addr operand \<Rightarrow> addr operand \<Rightarrow> Store \<Rightarrow>
     error \<times> Store + (addr operand \<times> nat) \<times> Store" where
  "applyOperatorS rt k op a b S =
     (if op = ''+'' then genericAddS rt k a b S
      else if op = ''-'' then genericSubtractS rt k a b S
      else if op = ''*'' then genericMultiplyS rt k a b S
      else if op = ''^'' then
        (case (a, b) of
           (Mat m, Scalar x) \<Rightarrow>
             (case powerMatrixS rt k m x S of
                Inl failure \<Rightarrow> Inl failure
              | Inr ((r, k'), S') \<Rightarrow> Inr ((Mat r, k'), S'))
         | _ \<Rightarrow> Inl (PowerOperandTypeError, S))
      else Inl (UnknownOperator op, S))"

definition evalTokenS ::
  "runtime \<Rightarrow> addr matrixMap \<Rightarrow> Token \<Rightarrow> addr EvalState \<times> Store \<Rightarrow>
     error \<times> Store + addr EvalState \<times> Store" where
  "evalTokenS rt matrixMap token world =
     (case world of
        (st, S) \<Rightarrow>
          if type token = NUMBER
          then Inr (st\<lparr>stack := stack st @ [Scalar (parseFloat rt (value token))]\<rparr>, S)
          else if type token = IDENTIFIER then
            (case map_of matrixMap (toUpperCase (value token)) of
               None \<Rightarrow> Inl (UnknownVariable (value token), S)
             | Some mat \<Rightarrow> Inr (st\<lparr>stack := stack st @ [Mat mat]\<rparr>, S))
          else if type token = OPERATOR then
            (if value token = [CHR 0x27] then
               (case pop (stack st) of
                  (None, rest) \<Rightarrow> Inl (TransposeRequiresMatrix, S)
                | (Some (Scalar x), rest) \<Rightarrow> Inl (TransposeRequiresMatrix, S)
                | (Some (Mat a), rest) \<Rightarrow>
                    (case transposeMatrixS rt (uuidCount st) a S of
                       Inl failure \<Rightarrow> Inl failure
                     | Inr ((r, k'), S') \<Rightarrow>
                         Inr (pushResult matrixMap (Mat r)
                                (st\<lparr>stack := rest, uuidCount := k'\<rparr>), S')))
             else
               (case pop (stack st) of
                  (b, rest) \<Rightarrow>
                    (case pop rest of
                       (a, rest') \<Rightarrow>
                         (case (a, b) of
                            (Some a', Some b') \<Rightarrow>
                              (case applyOperatorS rt (uuidCount st) (value token) a' b' S of
                                 Inl failure \<Rightarrow> Inl failure
                               | Inr ((r, k'), S') \<Rightarrow>
                                   Inr (pushResult matrixMap r
                                          (st\<lparr>stack := rest', uuidCount := k'\<rparr>), S'))
                          | _ \<Rightarrow> Inl (MissingOperand, S)))))
          else Inr (st, S))"

definition evaluateExpressionS ::
  "runtime \<Rightarrow> string \<Rightarrow> MatrixRef list \<Rightarrow> Store \<Rightarrow> error \<times> Store + MatrixRef list \<times> Store"
  where
  "evaluateExpressionS rt expression availableMatrices S =
     (if trim expression = [] then Inl (EmptyExpression, S)
      else
        (let matrixMap = buildMatrixMap availableMatrices;
             tokens = tokenize expression;
             rpn = toRPN tokens
         in case forEach rpn (evalTokenS rt matrixMap)
                   (\<lparr>stack = [], executionTrace = [], uuidCount = 0\<rparr>, S) of
              Inl failure \<Rightarrow> Inl failure
            | Inr (st, S') \<Rightarrow>
                if length (stack st) \<noteq> 1 then Inl (MalformedExpression, S')
                else (case stack st ! 0 of
                        Scalar x \<Rightarrow> Inl (FinalResultMustBeMatrix, S')
                      | Mat finalResult \<Rightarrow> Inr (executionTrace st, S'))))"

text \<open>A store that holds the grid \<open>[[1,2],[3,4]]\<close> of a matrix \<open>A\<close>.\<close>

definition sampleStore :: Store where
  "sampleStore = \<lparr>grids = [[0, 1]], numberArrays = [[1, 2], [3, 4]]\<rparr>"

definition sampleRefA :: MatrixRef where
  "sampleRefA = \<lparr>id' = ''a'', name = ''A'', rows = 2, cols = 2, data = 0\<rparr>"

subsection \<open>Stores that only grow\<close>

text \<open>
  A list extends another one when it starts with it: the arrays of the earlier store are
  all there, at their addresses, with their contents.
\<close>

definition extends :: "'a list \<Rightarrow> 'a list \<Rightarrow> bool" where
  "extends xs ys = (take (length xs) ys = xs)"

definition storeExtends :: "Store \<Rightarrow> Store \<Rightarrow> bool" where
  "storeExtends S S' =
     (extends (grids S) (grids S') \<and> extends (numberArrays S) (numberArrays S'))"

definition storeAfter :: "'e \<times> Store + 'a \<times> Store \<Rightarrow> Store" where
  "storeAfter r = (case r of Inl (e, S) \<Rightarrow> S | Inr (x, S) \<Rightarrow> S)"

definition loopStore :: "'e \<times> Store + Store \<Rightarrow> Store" where
  "loopStore r = (case r of Inl (e, S) \<Rightarrow> S | Inr S \<Rightarrow> S)"

definition gridAt :: "Store \<Rightarrow> addr \<Rightarrow> real list list" where
  "gridAt S g = map (\<lambda>r. numberArrays S ! r) (grids S ! g)"

definition allocated :: "Store \<Rightarrow> addr \<Rightarrow> bool" where
  "allocated S g =
     (g < length (grids S) \<and> list_all (\<lambda>r. r < length (numberArrays S)) (grids S ! g))"

lemma extends_length:
  assumes "extends xs ys"
  shows "length xs \<le> length ys"
proof -
  from assms have "length (take (length xs) ys) = length xs"
    unfolding extends_def by (rule arg_cong)
  then show ?thesis by simp
qed

lemma extends_refl: "extends xs xs"
  by (simp add: extends_def)

lemma extends_trans:
  assumes "extends xs ys" and "extends ys zs"
  shows "extends xs zs"
proof -
  from assms(1) have le: "length xs \<le> length ys" by (rule extends_length)
  have "take (length xs) zs = take (length xs) (take (length ys) zs)"
    using le by (simp add: min_def)
  also have "\<dots> = take (length xs) ys"
    using assms(2) by (simp add: extends_def)
  also have "\<dots> = xs"
    using assms(1) by (simp add: extends_def)
  finally show ?thesis by (simp add: extends_def)
qed

lemma extends_append: "extends xs (xs @ zs)"
  by (simp add: extends_def)

lemma extends_update:
  assumes "extends xs ys" and "length xs \<le> r"
  shows "extends xs (ys[r := v])"
  using assms by (simp add: extends_def)

lemma extends_nth:
  assumes "extends xs ys" and "a < length xs"
  shows "ys ! a = xs ! a"
proof -
  have "take (length xs) ys ! a = ys ! a"
    using assms(2) by simp
  with assms(1) show ?thesis by (simp add: extends_def)
qed

lemma storeExtends_refl: "storeExtends S S"
  by (simp add: storeExtends_def extends_refl)

lemma storeExtends_trans:
  "storeExtends S S' \<Longrightarrow> storeExtends S' S'' \<Longrightarrow> storeExtends S S''"
  by (auto simp: storeExtends_def intro: extends_trans)

lemma gridAt_storeExtends:
  assumes "storeExtends S S'" and "allocated S g"
  shows "gridAt S' g = gridAt S g"
proof -
  from assms(2) have g: "g < length (grids S)"
    and rows: "\<And>r. r \<in> set (grids S ! g) \<Longrightarrow> r < length (numberArrays S)"
    by (simp_all add: allocated_def list_all_iff)
  from assms(1) g have same: "grids S' ! g = grids S ! g"
    by (simp add: storeExtends_def extends_nth)
  have "numberArrays S' ! r = numberArrays S ! r" if "r \<in> set (grids S ! g)" for r
    using assms(1) rows [OF that] by (simp add: storeExtends_def extends_nth)
  with same show ?thesis by (simp add: gridAt_def)
qed

text \<open>
  While a primitive fills the grid \<open>g\<close> that it has allocated in the store \<open>S0\<close>, the store
  extends \<open>S0\<close> and the rows of \<open>g\<close> lie beyond the arrays of \<open>S0\<close>.
\<close>

definition filling :: "Store \<Rightarrow> addr \<Rightarrow> Store \<Rightarrow> bool" where
  "filling S0 g S =
     (storeExtends S0 S \<and> g < length (grids S) \<and>
      list_all (\<lambda>r. length (numberArrays S0) \<le> r) (grids S ! g))"

lemma filling_createEmptyMatrixS:
  assumes "createEmptyMatrixS r c z S0 = (g, S1)"
  shows "filling S0 g S1"
  using assms
  by (auto simp: createEmptyMatrixS_def filling_def storeExtends_def extends_append
      list_all_iff nth_append)

lemma filling_setCellS:
  assumes "filling S0 g S"
  shows "filling S0 g (loopStore (setCellS S g i j v))"
proof -
  have "filling S0 g (S\<lparr>numberArrays := (numberArrays S)[grids S ! g ! i := row]\<rparr>)"
    if "i < length (grids S ! g)" for row
  proof -
    from assms that have "length (numberArrays S0) \<le> grids S ! g ! i"
      by (simp add: filling_def list_all_length)
    with assms show ?thesis
      by (simp add: filling_def storeExtends_def extends_update)
  qed
  with assms show ?thesis
    by (simp add: setCellS_def loopStore_def)
qed

lemma forLoop_store_invariant:
  assumes "P s" and "\<And>j t. P t \<Longrightarrow> P (loopStore (body j t))"
  shows "P (loopStore (forLoop i n body s))"
  using assms(1)
proof (induction "n - i" arbitrary: i s)
  case 0
  then show ?case by (simp add: forLoop_done loopStore_def)
next
  case (Suc d)
  then have lt: "i < n" by simp
  show ?case
  proof (cases "body i s")
    case (Inl failure)
    with assms(2) [OF Suc.prems, of i] lt show ?thesis
      by (simp add: forLoop_step)
  next
    case (Inr t)
    with assms(2) [OF Suc.prems, of i] have "P t" by (simp add: loopStore_def)
    moreover from Suc.hyps(2) have "d = n - Suc i" by simp
    ultimately have "P (loopStore (forLoop (Suc i) n body t))"
      by (intro Suc.hyps(1))
    with Inr lt show ?thesis by (simp add: forLoop_step)
  qed
qed

lemma filling_nested_loops:
  assumes "filling S0 g S"
    and "\<And>i j t. body i j t = Inl (e i j t, t) \<or> body i j t = setCellS t g (a i j) (b i j) (v i j t)"
  shows "filling S0 g (loopStore (forLoop 0 r (\<lambda>i t. forLoop 0 c (body i) t) S))"
proof (rule forLoop_store_invariant [where P = "filling S0 g"])
  show "filling S0 g S" by (rule assms(1))
next
  fix i t assume outer: "filling S0 g t"
  show "filling S0 g (loopStore (forLoop 0 c (body i) t))"
  proof (rule forLoop_store_invariant [where P = "filling S0 g"])
    show "filling S0 g t" by (rule outer)
  next
    fix j u assume inner: "filling S0 g u"
    from assms(2) [of i j u] show "filling S0 g (loopStore (body i j u))"
    proof
      assume "body i j u = Inl (e i j u, u)"
      with inner show ?thesis by (simp add: loopStore_def)
    next
      assume "body i j u = setCellS u g (a i j) (b i j) (v i j u)"
      with filling_setCellS [OF inner] show ?thesis by simp
    qed
  qed
qed

subsection \<open>Every primitive and the evaluator only extend the store\<close>

lemma addMatricesS_extends: "storeExtends S (storeAfter (addMatricesS rt k matrices S))"
proof (cases matrices)
  case Nil
  then show ?thesis by (simp add: addMatricesS_def storeAfter_def storeExtends_refl)
next
  case (Cons first others)
  obtain g S1 where alloc: "createEmptyMatrixS (rows first) (cols first) 0 S = (g, S1)"
    by (cases "createEmptyMatrixS (rows first) (cols first) 0 S")
  let ?loops = "forLoop 0 (rows first)
     (\<lambda>i S. forLoop 0 (cols first)
        (\<lambda>j S. case addCellS rt S matrices i j of
                   Inl e \<Rightarrow> Inl (e, S)
                 | Inr sumAcc \<Rightarrow> setCellS S g i j sumAcc) S) S1"
  have "filling S g (loopStore (forLoop 0 (rows first)
     (\<lambda>i t. forLoop 0 (cols first)
        ((\<lambda>i j S. case addCellS rt S matrices i j of
                     Inl e \<Rightarrow> Inl (e, S)
                   | Inr sumAcc \<Rightarrow> setCellS S g i j sumAcc) i) t) S1))"
    by (rule filling_nested_loops
        [where a = "\<lambda>i j. i" and b = "\<lambda>i j. j"
          and e = "\<lambda>i j t. case addCellS rt t matrices i j of Inl e \<Rightarrow> e | Inr x \<Rightarrow> OutsideModel"
          and v = "\<lambda>i j t. case addCellS rt t matrices i j of Inl e \<Rightarrow> 0 | Inr x \<Rightarrow> x"])
      (auto simp: filling_createEmptyMatrixS [OF alloc] split: sum.splits)
  then have "storeExtends S (loopStore ?loops)"
    by (simp add: filling_def)
  with Cons alloc show ?thesis
    by (auto simp: addMatricesS_def storeAfter_def loopStore_def split: sum.splits)
qed

lemma subtractMatricesS_extends: "storeExtends S (storeAfter (subtractMatricesS rt k matrices S))"
proof (cases matrices)
  case Nil
  then show ?thesis by (simp add: subtractMatricesS_def storeAfter_def storeExtends_refl)
next
  case (Cons first others)
  obtain g S1 where alloc: "createEmptyMatrixS (rows first) (cols first) 0 S = (g, S1)"
    by (cases "createEmptyMatrixS (rows first) (cols first) 0 S")
  let ?loops = "forLoop 0 (rows first)
     (\<lambda>i S. forLoop 0 (cols first)
        (\<lambda>j S. case subtractCellS rt S matrices i j of
                   Inl e \<Rightarrow> Inl (e, S)
                 | Inr val \<Rightarrow> setCellS S g i j val) S) S1"
  have "filling S g (loopStore (forLoop 0 (rows first)
     (\<lambda>i t. forLoop 0 (cols first)
        ((\<lambda>i j S. case subtractCellS rt S matrices i j of
                     Inl e \<Rightarrow> Inl (e, S)
                   | Inr val \<Rightarrow> setCellS S g i j val) i) t) S1))"
    by (rule filling_nested_loops
        [where a = "\<lambda>i j. i" and b = "\<lambda>i j. j"
          and e = "\<lambda>i j t. case subtractCellS rt t matrices i j of Inl e \<Rightarrow> e | Inr x \<Rightarrow> OutsideModel"
          and v = "\<lambda>i j t. case subtractCellS rt t matrices i j of Inl e \<Rightarrow> 0 | Inr x \<Rightarrow> x"])
      (auto simp: filling_createEmptyMatrixS [OF alloc] split: sum.splits)
  then have "storeExtends S (loopStore ?loops)"
    by (simp add: filling_def)
  with Cons alloc show ?thesis
    by (auto simp: subtractMatricesS_def storeAfter_def loopStore_def split: sum.splits)
qed

lemma multiplyTwoMatricesS_extends:
  "storeExtends S (storeAfter (multiplyTwoMatricesS rt k A B S))"
proof -
  obtain g S1 where alloc: "createEmptyMatrixS (rows A) (cols B) 0 S = (g, S1)"
    by (cases "createEmptyMatrixS (rows A) (cols B) 0 S")
  let ?loops = "forLoop 0 (rows A)
     (\<lambda>i S. forLoop 0 (cols B)
        (\<lambda>j S. case multiplyCellS rt S A B i j of
                   Inl e \<Rightarrow> Inl (e, S)
                 | Inr sumAcc \<Rightarrow> setCellS S g i j (toFixed4 rt sumAcc)) S) S1"
  have "filling S g (loopStore (forLoop 0 (rows A)
     (\<lambda>i t. forLoop 0 (cols B)
        ((\<lambda>i j S. case multiplyCellS rt S A B i j of
                     Inl e \<Rightarrow> Inl (e, S)
                   | Inr sumAcc \<Rightarrow> setCellS S g i j (toFixed4 rt sumAcc)) i) t) S1))"
    by (rule filling_nested_loops
        [where a = "\<lambda>i j. i" and b = "\<lambda>i j. j"
          and e = "\<lambda>i j t. case multiplyCellS rt t A B i j of Inl e \<Rightarrow> e | Inr x \<Rightarrow> OutsideModel"
          and v = "\<lambda>i j t. case multiplyCellS rt t A B i j of Inl e \<Rightarrow> 0 | Inr x \<Rightarrow> toFixed4 rt x"])
      (auto simp: filling_createEmptyMatrixS [OF alloc] split: sum.splits)
  then have "storeExtends S (loopStore ?loops)"
    by (simp add: filling_def)
  with alloc show ?thesis
    by (auto simp: multiplyTwoMatricesS_def storeAfter_def loopStore_def split: sum.splits)
qed

lemma transposeMatrixS_extends: "storeExtends S (storeAfter (transposeMatrixS rt k matrix S))"
proof -
  obtain g S1 where alloc: "createEmptyMatrixS (cols matrix) (rows matrix) 0 S = (g, S1)"
    by (cases "createEmptyMatrixS (cols matrix) (rows matrix) 0 S")
  let ?loops = "forLoop 0 (rows matrix)
     (\<lambda>i S. forLoop 0 (cols matrix)
        (\<lambda>j S. case cellAtS S (data matrix) i j of
                   Inl e \<Rightarrow> Inl (e, S)
                 | Inr v \<Rightarrow> setCellS S g j i v) S) S1"
  have "filling S g (loopStore (forLoop 0 (rows matrix)
     (\<lambda>i t. forLoop 0 (cols matrix)
        ((\<lambda>i j S. case cellAtS S (data matrix) i j of
                     Inl e \<Rightarrow> Inl (e, S)
                   | Inr v \<Rightarrow> setCellS S g j i v) i) t) S1))"
    by (rule filling_nested_loops
        [where a = "\<lambda>i j. j" and b = "\<lambda>i j. i"
          and e = "\<lambda>i j t. case cellAtS t (data matrix) i j of Inl e \<Rightarrow> e | Inr x \<Rightarrow> OutsideModel"
          and v = "\<lambda>i j t. case cellAtS t (data matrix) i j of Inl e \<Rightarrow> 0 | Inr x \<Rightarrow> x"])
      (auto simp: filling_createEmptyMatrixS [OF alloc] split: sum.splits)
  then have "storeExtends S (loopStore ?loops)"
    by (simp add: filling_def)
  with alloc show ?thesis
    by (auto simp: transposeMatrixS_def storeAfter_def loopStore_def split: sum.splits)
qed

lemma scalarOperationS_extends:
  "storeExtends S (storeAfter (scalarOperationS rt k matrix scalar op S))"
  by (auto simp: scalarOperationS_def storeAfter_def storeExtends_def extends_refl
      extends_append split: option.splits)

lemma powerLoopS_step:
  "real i < exponent \<Longrightarrow>
   powerLoopS rt matrix exponent i ((result, k), S) =
     (case multiplyTwoMatricesS rt k result matrix S of
        Inl failure \<Rightarrow> Inl failure
      | Inr nextResult \<Rightarrow> powerLoopS rt matrix exponent (Suc i) nextResult)"
  by (subst powerLoopS.simps) simp

lemma powerLoopS_done:
  "\<not> real i < exponent \<Longrightarrow>
   powerLoopS rt matrix exponent i ((result, k), S) = Inr ((result, k), S)"
  by (subst powerLoopS.simps) simp

lemma powerLoopS_extends:
  "storeExtends S (storeAfter (powerLoopS rt matrix exponent i ((result, k), S)))"
proof (induction rt matrix exponent i "((result, k), S)" arbitrary: result k S
    rule: powerLoopS.induct)
  case (1 rt matrix exponent i result k S)
  show ?case
  proof (cases "real i < exponent")
    case False
    then show ?thesis by (simp add: powerLoopS_done storeAfter_def storeExtends_refl)
  next
    case True
    show ?thesis
    proof (cases "multiplyTwoMatricesS rt k result matrix S")
      case (Inl failure)
      with True multiplyTwoMatricesS_extends [of S rt k result matrix] show ?thesis
        by (simp add: powerLoopS_step storeAfter_def)
    next
      case (Inr nextResult)
      obtain result' k' S' where nxt: "nextResult = ((result', k'), S')"
        by (cases nextResult) auto
      from Inr nxt have step: "multiplyTwoMatricesS rt k result matrix S = Inr ((result', k'), S')"
        by simp
      from step multiplyTwoMatricesS_extends [of S rt k result matrix]
      have "storeExtends S S'" by (simp add: storeAfter_def)
      moreover from "1.hyps" [OF True step]
      have "storeExtends S' (storeAfter (powerLoopS rt matrix exponent (Suc i) ((result', k'), S')))" .
      ultimately show ?thesis
        using True step by (auto simp: powerLoopS_step intro: storeExtends_trans)
    qed
  qed
qed

lemma powerMatrixS_extends:
  "storeExtends S (storeAfter (powerMatrixS rt k matrix exponent S))"
  using powerLoopS_extends [of S rt matrix exponent 1 matrix k]
  by (auto simp: powerMatrixS_def storeAfter_def storeExtends_refl split: sum.splits)

lemma genericAddS_extends: "storeExtends S (storeAfter (genericAddS rt k a b S))"
proof (cases a)
  case (Scalar x)
  then show ?thesis
    by (cases b) (simp_all add: genericAddS_def storeAfter_def storeExtends_refl)
next
  case (Mat mA)
  show ?thesis
  proof (cases b)
    case (Scalar y)
    with Mat show ?thesis by (simp add: genericAddS_def storeAfter_def storeExtends_refl)
  next
    case mB: (Mat mB)
    from addMatricesS_extends [of S rt k "[mA, mB]"] Mat mB show ?thesis
      by (auto simp: genericAddS_def storeAfter_def storeExtends_refl split: sum.splits)
  qed
qed

lemma genericSubtractS_extends: "storeExtends S (storeAfter (genericSubtractS rt k a b S))"
proof (cases a)
  case (Scalar x)
  then show ?thesis
    by (cases b) (simp_all add: genericSubtractS_def storeAfter_def storeExtends_refl)
next
  case (Mat mA)
  show ?thesis
  proof (cases b)
    case (Scalar y)
    with Mat show ?thesis by (simp add: genericSubtractS_def storeAfter_def storeExtends_refl)
  next
    case mB: (Mat mB)
    from subtractMatricesS_extends [of S rt k "[mA, mB]"] Mat mB show ?thesis
      by (auto simp: genericSubtractS_def storeAfter_def storeExtends_refl split: sum.splits)
  qed
qed

lemma genericMultiplyS_extends: "storeExtends S (storeAfter (genericMultiplyS rt k a b S))"
proof (cases a)
  case (Scalar x)
  show ?thesis
  proof (cases b)
    case y: (Scalar y)
    with Scalar show ?thesis by (simp add: genericMultiplyS_def storeAfter_def storeExtends_refl)
  next
    case (Mat mB)
    from scalarOperationS_extends [of S rt k mB x SCALAR_MUL] Scalar Mat show ?thesis
      by (auto simp: genericMultiplyS_def storeAfter_def split: sum.splits)
  qed
next
  case (Mat mA)
  show ?thesis
  proof (cases b)
    case (Scalar y)
    from scalarOperationS_extends [of S rt k mA y SCALAR_MUL] Scalar Mat show ?thesis
      by (auto simp: genericMultiplyS_def storeAfter_def split: sum.splits)
  next
    case mB: (Mat mB)
    from multiplyTwoMatricesS_extends [of S rt k mA mB] Mat mB show ?thesis
      by (auto simp: genericMultiplyS_def storeAfter_def storeExtends_refl split: sum.splits)
  qed
qed

lemma applyOperatorS_extends: "storeExtends S (storeAfter (applyOperatorS rt k op a b S))"
proof -
  have power: "storeExtends S (storeAfter
      (case (a, b) of
         (Mat m, Scalar x) \<Rightarrow>
           (case powerMatrixS rt k m x S of
              Inl failure \<Rightarrow> Inl failure
            | Inr ((r, k'), S') \<Rightarrow> Inr ((Mat r, k'), S'))
       | _ \<Rightarrow> Inl (PowerOperandTypeError, S)))"
  proof (cases a)
    case (Scalar x)
    then show ?thesis by (simp add: storeAfter_def storeExtends_refl)
  next
    case (Mat m)
    show ?thesis
    proof (cases b)
      case (Scalar x)
      from powerMatrixS_extends [of S rt k m x] Mat Scalar show ?thesis
        by (auto simp: storeAfter_def split: sum.splits)
    next
      case mB: (Mat mB)
      with Mat show ?thesis by (simp add: storeAfter_def storeExtends_refl)
    qed
  qed
  show ?thesis
    unfolding applyOperatorS_def
    using genericAddS_extends [of S rt k a b] genericSubtractS_extends [of S rt k a b]
      genericMultiplyS_extends [of S rt k a b] power
    by (simp add: storeAfter_def storeExtends_refl)
qed

lemma evalTokenS_extends:
  "storeExtends S (storeAfter (evalTokenS rt matrixMap token (st, S)))"
proof -
  consider "type token = NUMBER" | "type token = IDENTIFIER"
    | "type token = OPERATOR" "value token = [CHR 0x27]"
    | "type token = OPERATOR" "value token \<noteq> [CHR 0x27]"
    | "type token \<noteq> NUMBER" "type token \<noteq> IDENTIFIER" "type token \<noteq> OPERATOR"
    by blast
  then show ?thesis
  proof cases
    case 1
    then show ?thesis by (simp add: evalTokenS_def storeAfter_def storeExtends_refl)
  next
    case 2
    then show ?thesis
      by (simp add: evalTokenS_def storeAfter_def storeExtends_refl split: option.splits)
  next
    case 3
    obtain top rest where popped: "pop (stack st) = (top, rest)"
      by (cases "pop (stack st)")
    show ?thesis
    proof (cases top)
      case None
      with 3 popped show ?thesis by (simp add: evalTokenS_def storeAfter_def storeExtends_refl)
    next
      case (Some v)
      show ?thesis
      proof (cases v)
        case (Scalar x)
        with 3 popped Some show ?thesis
          by (simp add: evalTokenS_def storeAfter_def storeExtends_refl)
      next
        case (Mat a)
        from transposeMatrixS_extends [of S rt "uuidCount st" a] 3 popped Some Mat
        show ?thesis
          by (auto simp: evalTokenS_def storeAfter_def split: sum.splits)
      qed
    qed
  next
    case 4
    obtain b rest where popb: "pop (stack st) = (b, rest)"
      by (cases "pop (stack st)")
    obtain a rest' where popa: "pop rest = (a, rest')"
      by (cases "pop rest")
    show ?thesis
    proof (cases "\<exists>a' b'. a = Some a' \<and> b = Some b'")
      case False
      with 4 popb popa show ?thesis
        by (auto simp: evalTokenS_def storeAfter_def storeExtends_refl split: option.splits)
    next
      case True
      then obtain a' b' where "a = Some a'" "b = Some b'" by blast
      with applyOperatorS_extends [of S rt "uuidCount st" "value token" a' b'] 4 popb popa
      show ?thesis
        by (auto simp: evalTokenS_def storeAfter_def split: sum.splits)
    qed
  next
    case 5
    then show ?thesis by (simp add: evalTokenS_def storeAfter_def storeExtends_refl)
  qed
qed

lemma forEach_store_invariant:
  fixes body :: "'a \<Rightarrow> 's \<times> Store \<Rightarrow> 'e \<times> Store + 's \<times> Store"
  assumes "\<And>x st S. storeExtends S (storeAfter (body x (st, S)))"
  shows "storeExtends S (storeAfter (forEach xs body (st, S)))"
proof (induction xs arbitrary: st S)
  case Nil
  then show ?case by (simp add: storeAfter_def storeExtends_refl)
next
  case (Cons x xs)
  show ?case
  proof (cases "body x (st, S)")
    case (Inl failure)
    with assms [of S x st] show ?thesis by simp
  next
    case (Inr world)
    obtain st' S' where world: "world = (st', S')" by (cases world)
    from assms [of S x st] Inr world have "storeExtends S S'" by (simp add: storeAfter_def)
    with Cons.IH [of S' st'] Inr world show ?thesis
      by (auto intro: storeExtends_trans)
  qed
qed

lemma evaluateExpressionS_extends:
  "storeExtends S (storeAfter (evaluateExpressionS rt expression availableMatrices S))"
proof -
  define mm where "mm = buildMatrixMap availableMatrices"
  define run where "run = forEach (toRPN (tokenize expression)) (evalTokenS rt mm)
    (\<lparr>stack = [], executionTrace = [], uuidCount = 0\<rparr>, S)"
  have "storeExtends S (storeAfter run)"
    unfolding run_def by (rule forEach_store_invariant) (rule evalTokenS_extends)
  then show ?thesis
    by (auto simp: evaluateExpressionS_def Let_def storeAfter_def storeExtends_refl
        mm_def [symmetric] run_def [symmetric] split: sum.splits operand.splits)
qed

subsection \<open>The supplied matrices after a call\<close>

lemma buildMatrixMap_sampleRefA: "buildMatrixMap [sampleRefA] = [(''A'', sampleRefA)]"
  by (simp add: buildMatrixMap_def registerMatrix_def sampleRefA_def toUpperCase_def
      toUpperChar_def fromCharCode_65)

lemma rpn_power_one_times:
  "toRPN (tokenize ''A^1*A'') =
     [\<lparr>type = IDENTIFIER, value = ''A''\<rparr>, \<lparr>type = NUMBER, value = ''1''\<rparr>,
      \<lparr>type = OPERATOR, value = ''^''\<rparr>, \<lparr>type = IDENTIFIER, value = ''A''\<rparr>,
      \<lparr>type = OPERATOR, value = ''*''\<rparr>]"
  by (simp add: isDigit_def isLetter_def isOpChar_def scanNumber_def toRPN_def rpnStep_def
      precedence_def precGe_def)

lemma rpn_power_one_times_plus:
  "toRPN (tokenize ''A^1*A+'') =
     [\<lparr>type = IDENTIFIER, value = ''A''\<rparr>, \<lparr>type = NUMBER, value = ''1''\<rparr>,
      \<lparr>type = OPERATOR, value = ''^''\<rparr>, \<lparr>type = IDENTIFIER, value = ''A''\<rparr>,
      \<lparr>type = OPERATOR, value = ''*''\<rparr>, \<lparr>type = OPERATOR, value = ''+''\<rparr>]"
  by (simp add: isDigit_def isLetter_def isOpChar_def scanNumber_def toRPN_def rpnStep_def
      precedence_def precGe_def)

lemma parseFloat_1: "parseFloat rt ''1'' = 1"
  by (simp add: parseFloat_def digitsToNat_def isDigit_def toDouble_numeral)

lemma multiply_sample_in_store:
  "multiplyTwoMatricesS sampleRuntime (Suc 0)
     \<lparr>id' = ''u'', name = ''A^1'', rows = 2, cols = 2, data = 0\<rparr> sampleRefA sampleStore =
   Inr ((\<lparr>id' = ''ux'', name = ''(A^1 '' @ middleDot @ '' A)'', rows = 2, cols = 2, data = 1\<rparr>,
         Suc (Suc 0)),
        \<lparr>grids = [[0, 1], [2, 3]], numberArrays = [[1, 2], [3, 4], [7, 10], [15, 22]]\<rparr>)"
  by (simp add: multiplyTwoMatricesS_def createEmptyMatrixS_def multiplyCellS_def cellAtS_def
      setCellS_def sampleStore_def sampleRefA_def sampleRuntime_def sampleUUID_def
      forLoop_step forLoop_done numeral_2_eq_2 numPlus_def numTimes_def toDouble_numeral
      toFixed4_numeral)

lemma run_power_one_times:
  "forEach
     [\<lparr>type = IDENTIFIER, value = ''A''\<rparr>, \<lparr>type = NUMBER, value = ''1''\<rparr>,
      \<lparr>type = OPERATOR, value = ''^''\<rparr>, \<lparr>type = IDENTIFIER, value = ''A''\<rparr>,
      \<lparr>type = OPERATOR, value = ''*''\<rparr>]
     (evalTokenS sampleRuntime [(''A'', sampleRefA)])
     (\<lparr>stack = [], executionTrace = [], uuidCount = 0\<rparr>, sampleStore) =
   Inr (\<lparr>stack = [Mat \<lparr>id' = ''ux'', name = ''(A^1 '' @ middleDot @ '' A)'', rows = 2,
                          cols = 2, data = 1\<rparr>],
          executionTrace =
            [\<lparr>id' = ''u'', name = ''A^1'', rows = 2, cols = 2, data = 0\<rparr>,
             \<lparr>id' = ''ux'', name = ''(A^1 '' @ middleDot @ '' A)'', rows = 2, cols = 2,
              data = 1\<rparr>],
          uuidCount = Suc (Suc 0)\<rparr>,
        \<lparr>grids = [[0, 1], [2, 3]], numberArrays = [[1, 2], [3, 4], [7, 10], [15, 22]]\<rparr>)"
proof -
  have power: "powerMatrixS sampleRuntime 0 sampleRefA 1 sampleStore =
      Inr ((\<lparr>id' = ''u'', name = ''A^1'', rows = 2, cols = 2, data = 0\<rparr>, Suc 0), sampleStore)"
    by (simp add: powerMatrixS_def isInteger_def sampleRefA_def sampleRuntime_def sampleUUID_def)
  have dims: "rows sampleRefA = 2"
    by (simp add: sampleRefA_def)
  have ids: "id' sampleRefA = ''a''"
    by (simp add: sampleRefA_def)
  show ?thesis
    by (simp add: evalTokenS_def toUpperCase_A parseFloat_1 pop_def applyOperatorS_def power
        genericMultiplyS_def dims multiply_sample_in_store pushResult_def ids)
qed

text \<open>
  Claim C8. Whatever the expression and the list of supplied matrices, a matrix \<open>m\<close> of the
  list whose arrays are in the store has the same grid of cells after the call as before,
  when the call returns a trace and when it fails; the store after the call extends the
  store before it, so that no array that existed before the call has changed. The fields
  \<open>id\<close>, \<open>name\<close>, \<open>rows\<close> and \<open>cols\<close> of a matrix and the list itself are values that the
  engine receives and has no means to assign to.
\<close>

theorem evaluateExpression_leaves_supplied_matrices:
  assumes "m \<in> set availableMatrices" and "allocated S (data m)"
  shows "(evaluateExpressionS rt expression availableMatrices S = Inr (trace, S') \<longrightarrow>
            gridAt S' (data m) = gridAt S (data m) \<and> storeExtends S S') \<and>
         (evaluateExpressionS rt expression availableMatrices S = Inl (e, S') \<longrightarrow>
            gridAt S' (data m) = gridAt S (data m) \<and> storeExtends S S')"
proof -
  have frame: "storeExtends S (storeAfter (evaluateExpressionS rt expression availableMatrices S))"
    by (rule evaluateExpressionS_extends)
  have "gridAt S' (data m) = gridAt S (data m) \<and> storeExtends S S'"
    if "evaluateExpressionS rt expression availableMatrices S = Inr (trace, S')"
  proof -
    from frame that have "storeExtends S S'" by (simp add: storeAfter_def)
    with gridAt_storeExtends [OF this assms(2)] show ?thesis by simp
  qed
  moreover have "gridAt S' (data m) = gridAt S (data m) \<and> storeExtends S S'"
    if "evaluateExpressionS rt expression availableMatrices S = Inl (e, S')"
  proof -
    from frame that have "storeExtends S S'" by (simp add: storeAfter_def)
    with gridAt_storeExtends [OF this assms(2)] show ?thesis by simp
  qed
  ultimately show ?thesis by blast
qed

text \<open>
  In the witness the power \<open>A^1\<close> shares the array of \<open>A\<close> (its \<open>data\<close> is the address 0 of
  the input) and is then an operand of a product; the second expression fails after that
  product has been written into the store.
\<close>

theorem leaves_supplied_matrices_witness:
  "evaluateExpressionS sampleRuntime ''A^1*A'' [sampleRefA] sampleStore =
     Inr ([\<lparr>id' = ''u'', name = ''A^1'', rows = 2, cols = 2, data = 0\<rparr>,
           \<lparr>id' = ''ux'', name = ''(A^1 '' @ middleDot @ '' A)'', rows = 2, cols = 2,
            data = 1\<rparr>],
          \<lparr>grids = [[0, 1], [2, 3]], numberArrays = [[1, 2], [3, 4], [7, 10], [15, 22]]\<rparr>) \<and>
   evaluateExpressionS sampleRuntime ''A^1*A+'' [sampleRefA] sampleStore =
     Inl (MissingOperand,
          \<lparr>grids = [[0, 1], [2, 3]], numberArrays = [[1, 2], [3, 4], [7, 10], [15, 22]]\<rparr>) \<and>
   gridAt \<lparr>grids = [[0, 1], [2, 3]], numberArrays = [[1, 2], [3, 4], [7, 10], [15, 22]]\<rparr>
     (data sampleRefA) = gridAt sampleStore (data sampleRefA) \<and>
   gridAt sampleStore (data sampleRefA) = [[1, 2], [3, 4]]"
proof -
  have ok: "evaluateExpressionS sampleRuntime ''A^1*A'' [sampleRefA] sampleStore =
     Inr ([\<lparr>id' = ''u'', name = ''A^1'', rows = 2, cols = 2, data = 0\<rparr>,
           \<lparr>id' = ''ux'', name = ''(A^1 '' @ middleDot @ '' A)'', rows = 2, cols = 2,
            data = 1\<rparr>],
          \<lparr>grids = [[0, 1], [2, 3]], numberArrays = [[1, 2], [3, 4], [7, 10], [15, 22]]\<rparr>)"
    unfolding evaluateExpressionS_def Let_def rpn_power_one_times buildMatrixMap_sampleRefA
      run_power_one_times
    using trim_not_empty [of "CHR ''A''" "''^1*A''"] by (simp add: isSpace_def)
  have failed: "evaluateExpressionS sampleRuntime ''A^1*A+'' [sampleRefA] sampleStore =
     Inl (MissingOperand,
          \<lparr>grids = [[0, 1], [2, 3]], numberArrays = [[1, 2], [3, 4], [7, 10], [15, 22]]\<rparr>)"
  proof -
    have "forEach
       ([\<lparr>type = IDENTIFIER, value = ''A''\<rparr>, \<lparr>type = NUMBER, value = ''1''\<rparr>,
         \<lparr>type = OPERATOR, value = ''^''\<rparr>, \<lparr>type = IDENTIFIER, value = ''A''\<rparr>,
         \<lparr>type = OPERATOR, value = ''*''\<rparr>] @ [\<lparr>type = OPERATOR, value = ''+''\<rparr>])
       (evalTokenS sampleRuntime [(''A'', sampleRefA)])
       (\<lparr>stack = [], executionTrace = [], uuidCount = 0\<rparr>, sampleStore) =
      Inl (MissingOperand,
           \<lparr>grids = [[0, 1], [2, 3]], numberArrays = [[1, 2], [3, 4], [7, 10], [15, 22]]\<rparr>)"
      unfolding forEach_append run_power_one_times
      by (simp add: evalTokenS_def pop_def)
    then show ?thesis
      unfolding evaluateExpressionS_def Let_def rpn_power_one_times_plus
        buildMatrixMap_sampleRefA
      using trim_not_empty [of "CHR ''A''" "''^1*A+''"] by (simp add: isSpace_def)
  qed
  have member: "sampleRefA \<in> set [sampleRefA]" by simp
  have alloc: "allocated sampleStore (data sampleRefA)"
    by (simp add: allocated_def sampleStore_def sampleRefA_def)
  have cells: "gridAt sampleStore (data sampleRefA) = [[1, 2], [3, 4]]"
    by (simp add: gridAt_def sampleStore_def sampleRefA_def)
  from evaluateExpression_leaves_supplied_matrices [OF member alloc,
      of sampleRuntime "''A^1*A''" _ _ MissingOperand] ok
  have "gridAt \<lparr>grids = [[0, 1], [2, 3]],
      numberArrays = [[1, 2], [3, 4], [7, 10], [15, 22]]\<rparr> (data sampleRefA) =
      gridAt sampleStore (data sampleRefA)"
    by simp
  with ok failed cells show ?thesis by simp
qed

subsection \<open>The two models agree\<close>

text \<open>
  The engine on a store and the engine on values are two readings of the same code. A matrix
  of the store is read back as a matrix of values by following the address of its \<open>data\<close>;
  every primitive, the dispatch, one token and a whole evaluation on the store then give the
  result of their counterparts on values, read back from the store they leave: the same
  error, or the same matrices.
\<close>

definition absM :: "Store \<Rightarrow> MatrixRef \<Rightarrow> Matrix" where
  "absM S m =
     \<lparr>id' = id' m, name = name m, rows = rows m, cols = cols m, data = gridAt S (data m)\<rparr>"

definition absOperand :: "Store \<Rightarrow> addr operand \<Rightarrow> grid operand" where
  "absOperand S v = (case v of Scalar x \<Rightarrow> Scalar x | Mat m \<Rightarrow> Mat (absM S m))"

lemma allocated_storeExtends:
  assumes "storeExtends S S'" and "allocated S g"
  shows "allocated S' g"
proof -
  from assms(2) have g: "g < length (grids S)"
    and rows: "\<And>r. r \<in> set (grids S ! g) \<Longrightarrow> r < length (numberArrays S)"
    by (simp_all add: allocated_def list_all_iff)
  from assms(1) have le: "length (grids S) \<le> length (grids S')"
    "length (numberArrays S) \<le> length (numberArrays S')"
    by (simp_all add: storeExtends_def extends_length)
  from assms(1) g have same: "grids S' ! g = grids S ! g"
    by (simp add: storeExtends_def extends_nth)
  from g le rows same show ?thesis
    by (fastforce simp: allocated_def list_all_iff)
qed

lemma absM_storeExtends:
  assumes "storeExtends S S'" and "allocated S (data m)"
  shows "absM S' m = absM S m"
  using gridAt_storeExtends [OF assms] by (simp add: absM_def)

lemma cellAtS_gridAt:
  assumes "allocated S g"
  shows "cellAtS S g i j = cellAt (gridAt S g) i j"
proof -
  from assms have g: "g < length (grids S)"
    and rows: "\<And>i. i < length (grids S ! g) \<Longrightarrow> grids S ! g ! i < length (numberArrays S)"
    by (simp_all add: allocated_def list_all_length)
  show ?thesis
  proof (cases "i < length (grids S ! g)")
    case False
    with g show ?thesis by (simp add: cellAtS_def cellAt_def gridAt_def)
  next
    case True
    with g rows [OF True] show ?thesis
      by (simp add: cellAtS_def cellAt_def gridAt_def)
  qed
qed

text \<open>
  While a primitive fills its grid \<open>g\<close>, the rows of \<open>g\<close> are distinct arrays of the store
  and the cells of \<open>g\<close> are the cells of the local grid of the first model.
\<close>

definition fillRel :: "Store \<Rightarrow> addr \<Rightarrow> Store \<Rightarrow> grid \<Rightarrow> bool" where
  "fillRel S0 g S rd =
     (filling S0 g S \<and> distinct (grids S ! g) \<and> allocated S g \<and> gridAt S g = rd)"

lemma fillRel_createEmptyMatrixS:
  assumes "createEmptyMatrixS r c z S0 = (g, S1)"
  shows "fillRel S0 g S1 (createEmptyMatrix r c z)"
proof -
  from assms have g: "g = length (grids S0)"
    and S1: "S1 = S0\<lparr>numberArrays := numberArrays S0 @ replicate r (replicate c z),
        grids := grids S0 @ [[length (numberArrays S0)..<length (numberArrays S0) + r]]\<rparr>"
    by (simp_all add: createEmptyMatrixS_def)
  have rows: "grids S1 ! g = [length (numberArrays S0)..<length (numberArrays S0) + r]"
    by (simp add: g S1)
  have "gridAt S1 g = replicate r (replicate c z)"
    unfolding gridAt_def rows
    by (rule nth_equalityI) (simp_all add: S1 nth_append)
  moreover have "allocated S1 g"
    by (simp add: allocated_def rows list_all_iff) (simp add: g S1)
  ultimately show ?thesis
    using filling_createEmptyMatrixS [OF assms] rows
    by (simp add: fillRel_def createEmptyMatrix_def)
qed

definition loopSim :: "(Store \<Rightarrow> 't \<Rightarrow> bool) \<Rightarrow> error \<times> Store + Store \<Rightarrow> error + 't \<Rightarrow> bool" where
  "loopSim R r r' =
     (case r of
        Inl (e, S) \<Rightarrow> r' = Inl e
      | Inr S \<Rightarrow> (case r' of Inl e' \<Rightarrow> False | Inr t \<Rightarrow> R S t))"

lemma setCellS_sim:
  assumes "fillRel S0 g S rd"
  shows "loopSim (fillRel S0 g) (setCellS S g i j v) (setCell rd i j v)"
proof -
  from assms have fill: "filling S0 g S" and dist: "distinct (grids S ! g)"
    and alloc: "allocated S g" and rd: "gridAt S g = rd"
    by (simp_all add: fillRel_def)
  from alloc have g: "g < length (grids S)"
    and rows: "\<And>i. i < length (grids S ! g) \<Longrightarrow> grids S ! g ! i < length (numberArrays S)"
    by (simp_all add: allocated_def list_all_length)
  have len: "length rd = length (grids S ! g)"
    using rd by (auto simp: gridAt_def)
  show ?thesis
  proof (cases "i < length (grids S ! g)")
    case False
    with g len show ?thesis by (simp add: setCellS_def setCell_def loopSim_def)
  next
    case True
    let ?r = "grids S ! g ! i"
    from True rd have row: "rd ! i = numberArrays S ! ?r"
      by (auto simp: gridAt_def)
    show ?thesis
    proof (cases "j < length (numberArrays S ! ?r)")
      case False
      with g True rows [OF True] len row show ?thesis
        by (simp add: setCellS_def setCell_def loopSim_def)
    next
      case j: True
      let ?S' = "S\<lparr>numberArrays := (numberArrays S)[?r := (numberArrays S ! ?r)[j := v]]\<rparr>"
      have run: "setCellS S g i j v = Inr ?S'"
        using g True rows [OF True] j by (simp add: setCellS_def)
      have run': "setCell rd i j v = Inr (rd[i := (rd ! i)[j := v]])"
        using True j len row by (simp add: setCell_def)
      have fill': "filling S0 g ?S'"
        using filling_setCellS [OF fill, of i j v] run by (simp add: loopStore_def)
      have alloc': "allocated ?S' g"
        using alloc by (simp add: allocated_def)
      have "gridAt ?S' g = rd[i := (rd ! i)[j := v]]"
      proof (rule nth_equalityI)
        show "length (gridAt ?S' g) = length (rd[i := (rd ! i)[j := v]])"
          using len by (simp add: gridAt_def)
      next
        fix n assume "n < length (gridAt ?S' g)"
        then have n: "n < length (grids S ! g)" by (simp add: gridAt_def)
        have "grids S ! g ! n = ?r \<longleftrightarrow> n = i"
          using dist n True by (simp add: nth_eq_iff_index_eq)
        with n True rows [OF n] rows [OF True] rd row len
        show "gridAt ?S' g ! n = rd[i := (rd ! i)[j := v]] ! n"
          by (auto simp: gridAt_def nth_list_update)
      qed
      with fill' alloc' dist have "fillRel S0 g ?S' (rd[i := (rd ! i)[j := v]])"
        by (simp add: fillRel_def)
      with run run' show ?thesis by (simp add: loopSim_def)
    qed
  qed
qed

lemma forLoop_sim:
  assumes "R s t" and "\<And>j s t. R s t \<Longrightarrow> loopSim R (body j s) (body' j t)"
  shows "loopSim R (forLoop i n body s) (forLoop i n body' t)"
  using assms(1)
proof (induction "n - i" arbitrary: i s t)
  case 0
  then show ?case by (simp add: forLoop_done loopSim_def)
next
  case (Suc d)
  then have lt: "i < n" by simp
  from assms(2) [OF Suc.prems, of i] have step: "loopSim R (body i s) (body' i t)" .
  show ?case
  proof (cases "body i s")
    case (Inl failure)
    with step lt show ?thesis
      by (auto simp: forLoop_step loopSim_def split: prod.splits)
  next
    case (Inr s')
    with step obtain t' where t': "body' i t = Inr t'" and rel: "R s' t'"
      by (auto simp: loopSim_def split: sum.splits)
    from Suc.hyps(2) have "d = n - Suc i" by simp
    from Suc.hyps(1) [OF this rel] Inr t' lt show ?thesis
      by (simp add: forLoop_step)
  qed
qed

lemma fill_sim:
  assumes start: "fillRel S0 g S rd"
    and reads: "\<And>i j t. storeExtends S0 t \<Longrightarrow> f t i j = f' i j"
  shows "loopSim (fillRel S0 g)
     (forLoop 0 r (\<lambda>i t. forLoop 0 c
        (\<lambda>j t. case f t i j of Inl e \<Rightarrow> Inl (e, t) | Inr x \<Rightarrow> setCellS t g (a i j) (b i j) (h x)) t) S)
     (forLoop 0 r (\<lambda>i rd. forLoop 0 c
        (\<lambda>j rd. case f' i j of Inl e \<Rightarrow> Inl e | Inr x \<Rightarrow> setCell rd (a i j) (b i j) (h x)) rd) rd)"
proof (rule forLoop_sim [where R = "fillRel S0 g"])
  show "fillRel S0 g S rd" by (rule start)
next
  fix i t rd' assume outer: "fillRel S0 g t rd'"
  show "loopSim (fillRel S0 g)
     (forLoop 0 c
        (\<lambda>j t. case f t i j of Inl e \<Rightarrow> Inl (e, t) | Inr x \<Rightarrow> setCellS t g (a i j) (b i j) (h x)) t)
     (forLoop 0 c
        (\<lambda>j rd. case f' i j of Inl e \<Rightarrow> Inl e | Inr x \<Rightarrow> setCell rd (a i j) (b i j) (h x)) rd')"
  proof (rule forLoop_sim [where R = "fillRel S0 g"])
    show "fillRel S0 g t rd'" by (rule outer)
  next
    fix j u rd'' assume inner: "fillRel S0 g u rd''"
    then have "storeExtends S0 u" by (simp add: fillRel_def filling_def)
    from reads [OF this] have same: "f u i j = f' i j" .
    show "loopSim (fillRel S0 g)
       (case f u i j of Inl e \<Rightarrow> Inl (e, u) | Inr x \<Rightarrow> setCellS u g (a i j) (b i j) (h x))
       (case f' i j of Inl e \<Rightarrow> Inl e | Inr x \<Rightarrow> setCell rd'' (a i j) (b i j) (h x))"
    proof (cases "f' i j")
      case (Inl e)
      with same show ?thesis by (simp add: loopSim_def)
    next
      case (Inr x)
      with same setCellS_sim [OF inner, of "a i j" "b i j" "h x"] show ?thesis by simp
    qed
  qed
qed

text \<open>The five primitives.\<close>

definition primSim ::
  "error \<times> Store + (MatrixRef \<times> nat) \<times> Store \<Rightarrow> error + Matrix \<times> nat \<Rightarrow> bool" where
  "primSim r r' =
     (case r of
        Inl (e, S') \<Rightarrow> r' = Inl e
      | Inr ((m, k), S') \<Rightarrow> r' = Inr (absM S' m, k) \<and> allocated S' (data m))"

lemma absM_fields [simp]:
  "id' (absM S m) = id' m" "name (absM S m) = name m" "rows (absM S m) = rows m"
  "cols (absM S m) = cols m" "data (absM S m) = gridAt S (data m)"
  by (simp_all add: absM_def)

lemma forEach_cells_sim:
  assumes "list_all (\<lambda>m. allocated S (data m)) ms" and "storeExtends S t"
  shows "forEach ms
           (\<lambda>m acc. case cellAtS t (data m) i j of Inl e \<Rightarrow> Inl e | Inr val \<Rightarrow> Inr (f acc val)) s =
         forEach (map (absM S) ms)
           (\<lambda>m acc. case cellAt (data m) i j of Inl e \<Rightarrow> Inl e | Inr val \<Rightarrow> Inr (f acc val)) s"
  using assms(1)
proof (induction ms arbitrary: s)
  case Nil
  then show ?case by simp
next
  case (Cons m ms)
  from Cons.prems have m: "allocated S (data m)" by simp
  have "cellAtS t (data m) i j = cellAt (gridAt S (data m)) i j"
    using cellAtS_gridAt [OF allocated_storeExtends [OF assms(2) m]]
      gridAt_storeExtends [OF assms(2) m] by simp
  with Cons show ?case by (simp split: sum.splits)
qed

lemma addCellS_sim:
  assumes "list_all (\<lambda>m. allocated S (data m)) ms" and "storeExtends S t"
  shows "addCellS rt t ms i j = addCell rt (map (absM S) ms) i j"
  unfolding addCellS_def addCell_def by (rule forEach_cells_sim [OF assms])

lemma subtractCellS_sim:
  assumes "list_all (\<lambda>m. allocated S (data m)) ms" and "storeExtends S t"
  shows "subtractCellS rt t ms i j = subtractCell rt (map (absM S) ms) i j"
proof (cases ms)
  case Nil
  then show ?thesis by (simp add: subtractCellS_def subtractCell_def)
next
  case (Cons first others)
  with assms(1) have first: "allocated S (data first)"
    and others: "list_all (\<lambda>m. allocated S (data m)) others" by simp_all
  have "cellAtS t (data first) i j = cellAt (gridAt S (data first)) i j"
    using cellAtS_gridAt [OF allocated_storeExtends [OF assms(2) first]]
      gridAt_storeExtends [OF assms(2) first] by simp
  with Cons forEach_cells_sim [OF others assms(2), where f = "numMinus rt"]
  show ?thesis
    by (simp add: subtractCellS_def subtractCell_def split: sum.splits)
qed

lemma multiplyCellS_sim:
  assumes "allocated S (data A)" and "allocated S (data B)" and "storeExtends S t"
  shows "multiplyCellS rt t A B i j = multiplyCell rt (absM S A) (absM S B) i j"
proof -
  have "cellAtS t (data A) i' j' = cellAt (gridAt S (data A)) i' j'" for i' j'
    using cellAtS_gridAt [OF allocated_storeExtends [OF assms(3,1)]]
      gridAt_storeExtends [OF assms(3,1)] by simp
  moreover have "cellAtS t (data B) i' j' = cellAt (gridAt S (data B)) i' j'" for i' j'
    using cellAtS_gridAt [OF allocated_storeExtends [OF assms(3,2)]]
      gridAt_storeExtends [OF assms(3,2)] by simp
  ultimately show ?thesis
    by (simp add: multiplyCellS_def multiplyCell_def cong: sum.case_cong)
qed

lemma filled_result:
  assumes "loopSim (fillRel S g) loops loops'"
  shows "(case loops of
            Inl (e, S') \<Rightarrow> loops' = Inl e
          | Inr S2 \<Rightarrow> loops' = Inr (gridAt S2 g) \<and> allocated S2 g)"
  using assms by (auto simp: loopSim_def fillRel_def split: sum.splits)

lemma addMatricesS_sim:
  assumes "list_all (\<lambda>m. allocated S (data m)) ms"
  shows "primSim (addMatricesS rt k ms S) (addMatrices rt k (map (absM S) ms))"
proof (cases ms)
  case Nil
  then show ?thesis by (simp add: addMatricesS_def addMatrices_def primSim_def)
next
  case (Cons first others)
  obtain g S1 where alloc: "createEmptyMatrixS (rows first) (cols first) 0 S = (g, S1)"
    by (cases "createEmptyMatrixS (rows first) (cols first) 0 S")
  have "loopSim (fillRel S g)
     (forLoop 0 (rows first) (\<lambda>i t. forLoop 0 (cols first)
        (\<lambda>j t. case addCellS rt t ms i j of
                   Inl e \<Rightarrow> Inl (e, t)
                 | Inr x \<Rightarrow> setCellS t g i j x) t) S1)
     (forLoop 0 (rows first) (\<lambda>i rd. forLoop 0 (cols first)
        (\<lambda>j rd. case addCell rt (map (absM S) ms) i j of
                    Inl e \<Rightarrow> Inl e
                  | Inr x \<Rightarrow> setCell rd i j x) rd)
        (createEmptyMatrix (rows first) (cols first) 0))"
    by (rule fill_sim [where h = "\<lambda>x. x" and a = "\<lambda>i j. i" and b = "\<lambda>i j. j"
          and f = "\<lambda>t i j. addCellS rt t ms i j"])
      (simp_all add: fillRel_createEmptyMatrixS [OF alloc] addCellS_sim [OF assms])
  from filled_result [OF this] Cons alloc show ?thesis
    by (auto simp: addMatricesS_def addMatrices_def primSim_def absM_def comp_def
        split: sum.splits)
qed

lemma subtractMatricesS_sim:
  assumes "list_all (\<lambda>m. allocated S (data m)) ms"
  shows "primSim (subtractMatricesS rt k ms S) (subtractMatrices rt k (map (absM S) ms))"
proof (cases ms)
  case Nil
  then show ?thesis by (simp add: subtractMatricesS_def subtractMatrices_def primSim_def)
next
  case (Cons first others)
  obtain g S1 where alloc: "createEmptyMatrixS (rows first) (cols first) 0 S = (g, S1)"
    by (cases "createEmptyMatrixS (rows first) (cols first) 0 S")
  have "loopSim (fillRel S g)
     (forLoop 0 (rows first) (\<lambda>i t. forLoop 0 (cols first)
        (\<lambda>j t. case subtractCellS rt t ms i j of
                   Inl e \<Rightarrow> Inl (e, t)
                 | Inr x \<Rightarrow> setCellS t g i j x) t) S1)
     (forLoop 0 (rows first) (\<lambda>i rd. forLoop 0 (cols first)
        (\<lambda>j rd. case subtractCell rt (map (absM S) ms) i j of
                    Inl e \<Rightarrow> Inl e
                  | Inr x \<Rightarrow> setCell rd i j x) rd)
        (createEmptyMatrix (rows first) (cols first) 0))"
    by (rule fill_sim [where h = "\<lambda>x. x" and a = "\<lambda>i j. i" and b = "\<lambda>i j. j"
          and f = "\<lambda>t i j. subtractCellS rt t ms i j"])
      (simp_all add: fillRel_createEmptyMatrixS [OF alloc] subtractCellS_sim [OF assms])
  from filled_result [OF this] Cons alloc show ?thesis
    by (auto simp: subtractMatricesS_def subtractMatrices_def primSim_def absM_def comp_def
        split: sum.splits)
qed

lemma multiplyTwoMatricesS_sim:
  assumes "allocated S (data A)" and "allocated S (data B)"
  shows "primSim (multiplyTwoMatricesS rt k A B S)
           (multiplyTwoMatrices rt k (absM S A) (absM S B))"
proof -
  obtain g S1 where alloc: "createEmptyMatrixS (rows A) (cols B) 0 S = (g, S1)"
    by (cases "createEmptyMatrixS (rows A) (cols B) 0 S")
  have "loopSim (fillRel S g)
     (forLoop 0 (rows A) (\<lambda>i t. forLoop 0 (cols B)
        (\<lambda>j t. case multiplyCellS rt t A B i j of
                   Inl e \<Rightarrow> Inl (e, t)
                 | Inr x \<Rightarrow> setCellS t g i j (toFixed4 rt x)) t) S1)
     (forLoop 0 (rows A) (\<lambda>i rd. forLoop 0 (cols B)
        (\<lambda>j rd. case multiplyCell rt (absM S A) (absM S B) i j of
                    Inl e \<Rightarrow> Inl e
                  | Inr x \<Rightarrow> setCell rd i j (toFixed4 rt x)) rd)
        (createEmptyMatrix (rows A) (cols B) 0))"
    by (rule fill_sim [where h = "toFixed4 rt" and a = "\<lambda>i j. i" and b = "\<lambda>i j. j"
          and f = "\<lambda>t i j. multiplyCellS rt t A B i j"])
      (simp_all add: fillRel_createEmptyMatrixS [OF alloc] multiplyCellS_sim [OF assms])
  from filled_result [OF this] alloc show ?thesis
    by (auto simp: multiplyTwoMatricesS_def multiplyTwoMatrices_def primSim_def absM_def
        split: sum.splits)
qed

lemma transposeMatrixS_sim:
  assumes "allocated S (data m)"
  shows "primSim (transposeMatrixS rt k m S) (transposeMatrix rt k (absM S m))"
proof -
  obtain g S1 where alloc: "createEmptyMatrixS (cols m) (rows m) 0 S = (g, S1)"
    by (cases "createEmptyMatrixS (cols m) (rows m) 0 S")
  have reads: "cellAtS t (data m) i j = cellAt (gridAt S (data m)) i j"
    if "storeExtends S t" for t i j
    using cellAtS_gridAt [OF allocated_storeExtends [OF that assms]]
      gridAt_storeExtends [OF that assms] by simp
  have "loopSim (fillRel S g)
     (forLoop 0 (rows m) (\<lambda>i t. forLoop 0 (cols m)
        (\<lambda>j t. case cellAtS t (data m) i j of
                   Inl e \<Rightarrow> Inl (e, t)
                 | Inr x \<Rightarrow> setCellS t g j i x) t) S1)
     (forLoop 0 (rows m) (\<lambda>i rd. forLoop 0 (cols m)
        (\<lambda>j rd. case cellAt (gridAt S (data m)) i j of
                    Inl e \<Rightarrow> Inl e
                  | Inr x \<Rightarrow> setCell rd j i x) rd)
        (createEmptyMatrix (cols m) (rows m) 0))"
    by (rule fill_sim [where h = "\<lambda>x. x" and a = "\<lambda>i j. j" and b = "\<lambda>i j. i"
          and f = "\<lambda>t i j. cellAtS t (data m) i j"])
      (simp_all add: fillRel_createEmptyMatrixS [OF alloc] reads)
  from filled_result [OF this] alloc show ?thesis
    by (auto simp: transposeMatrixS_def transposeMatrix_def primSim_def absM_def
        split: sum.splits)
qed

lemma scalarOperationS_sim:
  assumes "allocated S (data m)"
  shows "primSim (scalarOperationS rt k m x op S) (Inr (scalarOperation rt k (absM S m) x op))"
proof -
  from assms have g: "data m < length (grids S)"
    and rows: "\<And>r. r \<in> set (grids S ! data m) \<Longrightarrow> r < length (numberArrays S)"
    by (simp_all add: allocated_def list_all_iff)
  let ?rowArrays = "map (\<lambda>r. numberArrays S ! r) (grids S ! data m)"
  let ?new = "map (map (\<lambda>val. scalarCell rt op val x)) ?rowArrays"
  let ?S' = "S\<lparr>numberArrays := numberArrays S @ ?new,
      grids := grids S @
        [[length (numberArrays S)..<length (numberArrays S) + length ?rowArrays]]\<rparr>"
  have read: "rowsAtS S (data m) = Some ?rowArrays"
    using g by (auto simp: rowsAtS_def list_ex_iff dest!: rows)
  have "gridAt ?S' (length (grids S)) = ?new"
    unfolding gridAt_def
    by (rule nth_equalityI) (simp_all add: nth_append)
  moreover have "allocated ?S' (length (grids S))"
    by (simp add: allocated_def list_all_iff)
  ultimately show ?thesis
    using read
    by (simp add: scalarOperationS_def scalarOperation_def primSim_def absM_def gridAt_def)
qed

text \<open>The power, and the dispatch on the operand types.\<close>

lemma absM_update_id_name:
  "absM S (m\<lparr>id' := u, name := n\<rparr>) = (absM S m)\<lparr>id' := u, name := n\<rparr>"
  "absM S (m\<lparr>name := n, id' := u\<rparr>) = (absM S m)\<lparr>name := n, id' := u\<rparr>"
  by (simp_all add: absM_def)

lemma powerLoopS_sim:
  assumes "allocated S (data matrix)" and "allocated S (data result)"
  shows "primSim (powerLoopS rt matrix exponent i ((result, k), S))
           (powerLoop rt (absM S matrix) exponent i (absM S result, k))"
  using assms
proof (induction rt matrix exponent i "((result, k), S)" arbitrary: result k S
    rule: powerLoopS.induct)
  case (1 rt matrix exponent i result k S)
  show ?case
  proof (cases "real i < exponent")
    case False
    with "1.prems" show ?thesis
      by (simp add: powerLoopS_done powerLoop_done primSim_def)
  next
    case True
    from multiplyTwoMatricesS_sim [OF "1.prems"(2,1), of rt k]
    have mult: "primSim (multiplyTwoMatricesS rt k result matrix S)
        (multiplyTwoMatrices rt k (absM S result) (absM S matrix))" .
    show ?thesis
    proof (cases "multiplyTwoMatricesS rt k result matrix S")
      case (Inl failure)
      with mult True show ?thesis
        by (auto simp: powerLoopS_step powerLoop_step primSim_def split: prod.splits)
    next
      case (Inr nextResult)
      obtain result' k' S' where nxt: "nextResult = ((result', k'), S')"
        by (cases nextResult) auto
      from Inr nxt have step: "multiplyTwoMatricesS rt k result matrix S = Inr ((result', k'), S')"
        by simp
      from mult step have step': "multiplyTwoMatrices rt k (absM S result) (absM S matrix) =
          Inr (absM S' result', k')" and alloc': "allocated S' (data result')"
        by (simp_all add: primSim_def)
      from step multiplyTwoMatricesS_extends [of S rt k result matrix]
      have ext: "storeExtends S S'" by (simp add: storeAfter_def)
      from allocated_storeExtends [OF ext "1.prems"(1)] have m': "allocated S' (data matrix)" .
      from "1.hyps" [OF True step m' alloc']
      have "primSim (powerLoopS rt matrix exponent (Suc i) ((result', k'), S'))
          (powerLoop rt (absM S' matrix) exponent (Suc i) (absM S' result', k'))" .
      with True step step' absM_storeExtends [OF ext "1.prems"(1)] show ?thesis
        by (simp add: powerLoopS_step powerLoop_step)
    qed
  qed
qed

lemma powerMatrixS_sim:
  assumes "allocated S (data m)"
  shows "primSim (powerMatrixS rt k m exponent S) (powerMatrix rt k (absM S m) exponent)"
proof -
  from powerLoopS_sim [OF assms assms, of rt exponent 1 k]
  have loop: "primSim (powerLoopS rt m exponent 1 ((m, k), S))
      (powerLoop rt (absM S m) exponent 1 (absM S m, k))" .
  show ?thesis
  proof (cases "powerLoopS rt m exponent 1 ((m, k), S)")
    case (Inl failure)
    with loop assms show ?thesis
      by (auto simp: powerMatrixS_def powerMatrix_def primSim_def absM_update_id_name
          split: prod.splits)
  next
    case (Inr r)
    obtain result k' S' where r: "r = ((result, k'), S')" by (cases r) auto
    with Inr loop have "powerLoop rt (absM S m) exponent 1 (absM S m, k) =
        Inr (absM S' result, k')" and "allocated S' (data result)"
      by (simp_all add: primSim_def)
    with Inr r assms show ?thesis
      by (auto simp: powerMatrixS_def powerMatrix_def primSim_def absM_update_id_name)
  qed
qed

definition operandAllocated :: "Store \<Rightarrow> addr operand \<Rightarrow> bool" where
  "operandAllocated S v = (case v of Scalar x \<Rightarrow> True | Mat m \<Rightarrow> allocated S (data m))"

definition opSim ::
  "error \<times> Store + (addr operand \<times> nat) \<times> Store \<Rightarrow> error + grid operand \<times> nat \<Rightarrow> bool" where
  "opSim r r' =
     (case r of
        Inl (e, S') \<Rightarrow> r' = Inl e
      | Inr ((v, k), S') \<Rightarrow> r' = Inr (absOperand S' v, k) \<and> operandAllocated S' v)"

lemma opSim_of_primSim:
  assumes "primSim r r'"
  shows "opSim
     (case r of Inl failure \<Rightarrow> Inl failure | Inr ((m, k'), S') \<Rightarrow> Inr ((Mat m, k'), S'))
     (case r' of Inl e \<Rightarrow> Inl e | Inr (m, k') \<Rightarrow> Inr (Mat m, k'))"
  using assms
  by (auto simp: primSim_def opSim_def absOperand_def operandAllocated_def split: sum.splits)

lemma genericAddS_sim:
  assumes "operandAllocated S a" and "operandAllocated S b"
  shows "opSim (genericAddS rt k a b S) (genericAdd rt k (absOperand S a) (absOperand S b))"
proof (cases a)
  case (Scalar x)
  then show ?thesis
    by (cases b)
      (simp_all add: genericAddS_def genericAdd_def opSim_def absOperand_def
        operandAllocated_def)
next
  case (Mat mA)
  show ?thesis
  proof (cases b)
    case (Scalar y)
    with Mat show ?thesis
      by (simp add: genericAddS_def genericAdd_def opSim_def absOperand_def)
  next
    case mB: (Mat mB)
    from assms Mat mB have "list_all (\<lambda>m. allocated S (data m)) [mA, mB]"
      by (simp add: operandAllocated_def)
    from opSim_of_primSim [OF addMatricesS_sim [OF this, of rt k]] Mat mB show ?thesis
      by (simp add: genericAddS_def genericAdd_def absOperand_def opSim_def)
  qed
qed

lemma genericSubtractS_sim:
  assumes "operandAllocated S a" and "operandAllocated S b"
  shows "opSim (genericSubtractS rt k a b S)
           (genericSubtract rt k (absOperand S a) (absOperand S b))"
proof (cases a)
  case (Scalar x)
  then show ?thesis
    by (cases b)
      (simp_all add: genericSubtractS_def genericSubtract_def opSim_def absOperand_def
        operandAllocated_def)
next
  case (Mat mA)
  show ?thesis
  proof (cases b)
    case (Scalar y)
    with Mat show ?thesis
      by (simp add: genericSubtractS_def genericSubtract_def opSim_def absOperand_def)
  next
    case mB: (Mat mB)
    from assms Mat mB have "list_all (\<lambda>m. allocated S (data m)) [mA, mB]"
      by (simp add: operandAllocated_def)
    from opSim_of_primSim [OF subtractMatricesS_sim [OF this, of rt k]] Mat mB show ?thesis
      by (simp add: genericSubtractS_def genericSubtract_def absOperand_def opSim_def)
  qed
qed

lemma genericMultiplyS_sim:
  assumes "operandAllocated S a" and "operandAllocated S b"
  shows "opSim (genericMultiplyS rt k a b S)
           (genericMultiply rt k (absOperand S a) (absOperand S b))"
proof (cases a)
  case (Scalar x)
  show ?thesis
  proof (cases b)
    case y: (Scalar y)
    with Scalar show ?thesis
      by (simp add: genericMultiplyS_def genericMultiply_def opSim_def absOperand_def
          operandAllocated_def)
  next
    case (Mat mB)
    with assms(2) have "allocated S (data mB)" by (simp add: operandAllocated_def)
    from opSim_of_primSim [OF scalarOperationS_sim [OF this, of rt k x SCALAR_MUL]] Scalar Mat
    show ?thesis
      by (simp add: genericMultiplyS_def genericMultiply_def absOperand_def
          split: prod.splits)
  qed
next
  case (Mat mA)
  with assms(1) have mA: "allocated S (data mA)" by (simp add: operandAllocated_def)
  show ?thesis
  proof (cases b)
    case (Scalar y)
    from opSim_of_primSim [OF scalarOperationS_sim [OF mA, of rt k y SCALAR_MUL]] Scalar Mat
    show ?thesis
      by (simp add: genericMultiplyS_def genericMultiply_def absOperand_def
          split: prod.splits)
  next
    case mB: (Mat mB)
    with assms(2) have "allocated S (data mB)" by (simp add: operandAllocated_def)
    from opSim_of_primSim [OF multiplyTwoMatricesS_sim [OF mA this, of rt k]] Mat mB
    show ?thesis
      by (simp add: genericMultiplyS_def genericMultiply_def absOperand_def opSim_def)
  qed
qed

lemma applyOperatorS_sim:
  assumes "operandAllocated S a" and "operandAllocated S b"
  shows "opSim (applyOperatorS rt k op a b S)
           (applyOperator rt k op (absOperand S a) (absOperand S b))"
proof -
  have power: "opSim
      (case (a, b) of
         (Mat m, Scalar x) \<Rightarrow>
           (case powerMatrixS rt k m x S of
              Inl failure \<Rightarrow> Inl failure
            | Inr ((r, k'), S') \<Rightarrow> Inr ((Mat r, k'), S'))
       | _ \<Rightarrow> Inl (PowerOperandTypeError, S))
      (case (absOperand S a, absOperand S b) of
         (Mat m, Scalar x) \<Rightarrow>
           (case powerMatrix rt k m x of
              Inl e \<Rightarrow> Inl e
            | Inr (r, k') \<Rightarrow> Inr (Mat r, k'))
       | _ \<Rightarrow> Inl PowerOperandTypeError)"
  proof (cases a)
    case (Scalar x)
    then show ?thesis by (simp add: opSim_def absOperand_def)
  next
    case (Mat m)
    with assms(1) have m: "allocated S (data m)" by (simp add: operandAllocated_def)
    show ?thesis
    proof (cases b)
      case (Scalar x)
      from opSim_of_primSim [OF powerMatrixS_sim [OF m, of rt k x]] Mat Scalar show ?thesis
        by (simp add: absOperand_def)
    next
      case mB: (Mat mB)
      with Mat show ?thesis by (simp add: opSim_def absOperand_def)
    qed
  qed
  have unknown: "opSim (Inl (UnknownOperator op, S)) (Inl (UnknownOperator op))"
    by (simp add: opSim_def)
  show ?thesis
    unfolding applyOperatorS_def applyOperator_def
    using genericAddS_sim [OF assms, of rt k] genericSubtractS_sim [OF assms, of rt k]
      genericMultiplyS_sim [OF assms, of rt k] power unknown
    by simp
qed

text \<open>One token of the postfix form, and the loop over all of them.\<close>

definition stateRel :: "Store \<Rightarrow> addr EvalState \<Rightarrow> grid EvalState \<Rightarrow> bool" where
  "stateRel S st st' =
     (stack st' = map (absOperand S) (stack st) \<and>
      executionTrace st' = map (absM S) (executionTrace st) \<and>
      uuidCount st' = uuidCount st \<and>
      list_all (operandAllocated S) (stack st) \<and>
      list_all (\<lambda>m. allocated S (data m)) (executionTrace st))"

definition worldSim ::
  "Store \<Rightarrow> error \<times> Store + addr EvalState \<times> Store \<Rightarrow> error + grid EvalState \<Rightarrow> bool" where
  "worldSim S0 r r' =
     (case r of
        Inl (e, S') \<Rightarrow> r' = Inl e
      | Inr (st, S') \<Rightarrow>
          (case r' of Inl e \<Rightarrow> False | Inr st' \<Rightarrow> stateRel S' st st' \<and> storeExtends S0 S'))"

lemma operandAllocated_storeExtends:
  assumes "storeExtends S S'" and "operandAllocated S v"
  shows "operandAllocated S' v" and "absOperand S' v = absOperand S v"
  using assms allocated_storeExtends [OF assms(1)] absM_storeExtends [OF assms(1)]
  by (auto simp: operandAllocated_def absOperand_def split: operand.splits)

lemma stateRel_storeExtends:
  assumes "storeExtends S S'" and "stateRel S st st'"
  shows "stateRel S' st st'"
proof -
  from assms(2) have stackAlloc: "\<And>v. v \<in> set (stack st) \<Longrightarrow> operandAllocated S v"
    and traceAlloc: "\<And>m. m \<in> set (executionTrace st) \<Longrightarrow> allocated S (data m)"
    by (simp_all add: stateRel_def list_all_iff)
  have "map (absOperand S') (stack st) = map (absOperand S) (stack st)"
    by (rule map_cong [OF refl]) (simp add: operandAllocated_storeExtends [OF assms(1)] stackAlloc)
  moreover have "map (absM S') (executionTrace st) = map (absM S) (executionTrace st)"
    by (rule map_cong [OF refl]) (simp add: absM_storeExtends [OF assms(1)] traceAlloc)
  moreover have "list_all (operandAllocated S') (stack st)"
    using stackAlloc operandAllocated_storeExtends(1) [OF assms(1)] by (simp add: list_all_iff)
  moreover have "list_all (\<lambda>m. allocated S' (data m)) (executionTrace st)"
    using traceAlloc allocated_storeExtends [OF assms(1)] by (simp add: list_all_iff)
  ultimately show ?thesis using assms(2) by (simp add: stateRel_def)
qed

lemma pop_map:
  "pop (map f xs) = (map_option f (fst (pop xs)), map f (snd (pop xs)))"
  by (simp add: pop_def last_map map_butlast)

lemma pop_allocated:
  assumes "list_all P xs"
  shows "(case fst (pop xs) of None \<Rightarrow> True | Some v \<Rightarrow> P v) \<and> list_all P (snd (pop xs))"
  using assms by (auto simp: pop_def list_all_iff dest: in_set_butlastD)

lemma pushResult_sim:
  assumes "stateRel S st st'" and "operandAllocated S v"
  shows "stateRel S (pushResult mm v st)
           (pushResult (map (apsnd (absM S0)) mm) (absOperand S v) st')"
proof -
  have inputs: "list_ex (\<lambda>inp. id' inp = u) (map snd (map (apsnd (absM S0)) mm)) =
      list_ex (\<lambda>inp. id' inp = u) (map snd mm)" for u
    by (induction mm) auto
  show ?thesis
  proof (cases v)
    case (Scalar x)
    with assms show ?thesis
      by (simp add: pushResult_def stateRel_def absOperand_def operandAllocated_def)
  next
    case (Mat m)
    with assms inputs [of "id' m"] show ?thesis
      by (simp add: pushResult_def stateRel_def absOperand_def operandAllocated_def)
  qed
qed

lemma stateRel_rest:
  assumes "stateRel S st st'" and "list_all (operandAllocated S) rest"
  shows "stateRel S (st\<lparr>stack := rest, uuidCount := k\<rparr>)
           (st'\<lparr>stack := map (absOperand S) rest, uuidCount := k\<rparr>)"
  using assms by (simp add: stateRel_def)

lemma map_of_abs:
  "map_of (map (apsnd f) mm) key = map_option f (map_of mm key)"
  by (induction mm) auto

lemma evalTokenS_sim_identifier:
  assumes inputs: "list_all (\<lambda>m. allocated S0 (data m)) (map snd mm)"
    and ext: "storeExtends S0 S"
    and rel: "stateRel S st st'"
  shows "worldSim S0
     (case map_of mm key of
        None \<Rightarrow> Inl (UnknownVariable lexeme, S)
      | Some mat \<Rightarrow> Inr (st\<lparr>stack := stack st @ [Mat mat]\<rparr>, S))
     (case map_of (map (apsnd (absM S0)) mm) key of
        None \<Rightarrow> Inl (UnknownVariable lexeme)
      | Some mat \<Rightarrow> Inr (st'\<lparr>stack := stack st' @ [Mat mat]\<rparr>))"
proof (cases "map_of mm key")
  case None
  then show ?thesis by (simp add: map_of_abs worldSim_def)
next
  case (Some mat)
  then have "(key, mat) \<in> set mm" by (rule map_of_SomeD)
  then have "mat \<in> set (map snd mm)" by force
  with inputs have alloc0: "allocated S0 (data mat)" unfolding list_all_iff by blast
  from allocated_storeExtends [OF ext alloc0] absM_storeExtends [OF ext alloc0] rel Some ext
  show ?thesis
    by (simp add: map_of_abs worldSim_def stateRel_def absOperand_def operandAllocated_def)
qed

lemma evalTokenS_sim_transpose:
  assumes ext: "storeExtends S0 S" and rel: "stateRel S st st'"
  shows "worldSim S0
     (case pop (stack st) of
        (None, rest) \<Rightarrow> Inl (TransposeRequiresMatrix, S)
      | (Some (Scalar x), rest) \<Rightarrow> Inl (TransposeRequiresMatrix, S)
      | (Some (Mat a), rest) \<Rightarrow>
          (case transposeMatrixS rt (uuidCount st) a S of
             Inl failure \<Rightarrow> Inl failure
           | Inr ((r, k'), S') \<Rightarrow>
               Inr (pushResult mm (Mat r) (st\<lparr>stack := rest, uuidCount := k'\<rparr>), S')))
     (case pop (stack st') of
        (None, rest) \<Rightarrow> Inl TransposeRequiresMatrix
      | (Some (Scalar x), rest) \<Rightarrow> Inl TransposeRequiresMatrix
      | (Some (Mat a), rest) \<Rightarrow>
          (case transposeMatrix rt (uuidCount st') a of
             Inl e \<Rightarrow> Inl e
           | Inr (r, k') \<Rightarrow>
               Inr (pushResult (map (apsnd (absM S0)) mm) (Mat r)
                      (st'\<lparr>stack := rest, uuidCount := k'\<rparr>))))"
proof -
  obtain top rest where popped: "pop (stack st) = (top, rest)" by (cases "pop (stack st)")
  from rel have stack': "stack st' = map (absOperand S) (stack st)"
    and count: "uuidCount st' = uuidCount st"
    and stackAlloc: "list_all (operandAllocated S) (stack st)"
    by (simp_all add: stateRel_def)
  from popped stack' have popped': "pop (stack st') =
      (map_option (absOperand S) top, map (absOperand S) rest)"
    by (simp add: pop_map)
  from pop_allocated [OF stackAlloc] popped
  have topAlloc: "case top of None \<Rightarrow> True | Some v \<Rightarrow> operandAllocated S v"
    and restAlloc: "list_all (operandAllocated S) rest" by simp_all
  show ?thesis
  proof (cases top)
    case None
    with popped popped' show ?thesis by (simp add: worldSim_def)
  next
    case (Some v)
    show ?thesis
    proof (cases v)
      case (Scalar x)
      with Some popped popped' show ?thesis by (simp add: worldSim_def absOperand_def)
    next
      case (Mat a)
      with Some topAlloc have a: "allocated S (data a)" by (simp add: operandAllocated_def)
      from transposeMatrixS_sim [OF a, of rt "uuidCount st"]
      have sim: "primSim (transposeMatrixS rt (uuidCount st) a S)
          (transposeMatrix rt (uuidCount st) (absM S a))" .
      show ?thesis
      proof (cases "transposeMatrixS rt (uuidCount st) a S")
        case (Inl failure)
        with sim Some Mat popped popped' count show ?thesis
          by (auto simp: worldSim_def primSim_def absOperand_def split: prod.splits)
      next
        case (Inr res)
        obtain r k' S' where res: "res = ((r, k'), S')" by (cases res) auto
        from Inr res have run: "transposeMatrixS rt (uuidCount st) a S = Inr ((r, k'), S')"
          by simp
        with sim have run': "transposeMatrix rt (uuidCount st) (absM S a) = Inr (absM S' r, k')"
          and r: "allocated S' (data r)" by (simp_all add: primSim_def)
        from run transposeMatrixS_extends [of S rt "uuidCount st" a]
        have step: "storeExtends S S'" by (simp add: storeAfter_def)
        have restAlloc': "list_all (operandAllocated S') rest"
          using restAlloc operandAllocated_storeExtends(1) [OF step] by (simp add: list_all_iff)
        have rest': "map (absOperand S) rest = map (absOperand S') rest"
          by (rule map_cong [OF refl])
            (use restAlloc operandAllocated_storeExtends(2) [OF step] in
              \<open>simp add: list_all_iff\<close>)
        from pushResult_sim [where v = "Mat r" and mm = mm and ?S0.0 = S0,
            OF stateRel_rest [where k = k', OF stateRel_storeExtends [OF step rel] restAlloc']] r
        have "stateRel S' (pushResult mm (Mat r) (st\<lparr>stack := rest, uuidCount := k'\<rparr>))
            (pushResult (map (apsnd (absM S0)) mm) (Mat (absM S' r))
               (st'\<lparr>stack := map (absOperand S) rest, uuidCount := k'\<rparr>))"
          by (simp add: operandAllocated_def absOperand_def rest')
        with Some Mat popped popped' count run run' storeExtends_trans [OF ext step]
        show ?thesis by (simp add: worldSim_def absOperand_def)
      qed
    qed
  qed
qed

lemma evalTokenS_sim_binary:
  assumes ext: "storeExtends S0 S" and rel: "stateRel S st st'"
  shows "worldSim S0
     (case pop (stack st) of
        (b, rest) \<Rightarrow>
          (case pop rest of
             (a, rest') \<Rightarrow>
               (case (a, b) of
                  (Some a', Some b') \<Rightarrow>
                    (case applyOperatorS rt (uuidCount st) op a' b' S of
                       Inl failure \<Rightarrow> Inl failure
                     | Inr ((r, k'), S') \<Rightarrow>
                         Inr (pushResult mm r (st\<lparr>stack := rest', uuidCount := k'\<rparr>), S'))
                | _ \<Rightarrow> Inl (MissingOperand, S))))
     (case pop (stack st') of
        (b, rest) \<Rightarrow>
          (case pop rest of
             (a, rest') \<Rightarrow>
               (case (a, b) of
                  (Some a', Some b') \<Rightarrow>
                    (case applyOperator rt (uuidCount st') op a' b' of
                       Inl e \<Rightarrow> Inl e
                     | Inr (r, k') \<Rightarrow>
                         Inr (pushResult (map (apsnd (absM S0)) mm) r
                                (st'\<lparr>stack := rest', uuidCount := k'\<rparr>)))
                | _ \<Rightarrow> Inl MissingOperand)))"
proof -
  obtain b rest where popped: "pop (stack st) = (b, rest)" by (cases "pop (stack st)")
  obtain a rest' where popped2: "pop rest = (a, rest')" by (cases "pop rest")
  from rel have stack': "stack st' = map (absOperand S) (stack st)"
    and count: "uuidCount st' = uuidCount st"
    and stackAlloc: "list_all (operandAllocated S) (stack st)"
    by (simp_all add: stateRel_def)
  from popped stack' have poppedV: "pop (stack st') =
      (map_option (absOperand S) b, map (absOperand S) rest)"
    by (simp add: pop_map)
  from popped2 have popped2V: "pop (map (absOperand S) rest) =
      (map_option (absOperand S) a, map (absOperand S) rest')"
    by (simp add: pop_map)
  from pop_allocated [OF stackAlloc] popped
  have bAlloc: "case b of None \<Rightarrow> True | Some v \<Rightarrow> operandAllocated S v"
    and restAlloc: "list_all (operandAllocated S) rest" by simp_all
  from pop_allocated [OF restAlloc] popped2
  have aAlloc: "case a of None \<Rightarrow> True | Some v \<Rightarrow> operandAllocated S v"
    and restAlloc2: "list_all (operandAllocated S) rest'" by simp_all
  show ?thesis
  proof (cases a)
    case None
    with popped popped2 poppedV popped2V show ?thesis by (simp add: worldSim_def)
  next
    case a': (Some a')
    show ?thesis
    proof (cases b)
      case None
      with a' popped popped2 poppedV popped2V show ?thesis by (simp add: worldSim_def)
    next
      case b': (Some b')
      from a' aAlloc have aOk: "operandAllocated S a'" by simp
      from b' bAlloc have bOk: "operandAllocated S b'" by simp
      from applyOperatorS_sim [OF aOk bOk, of rt "uuidCount st" op]
      have sim: "opSim (applyOperatorS rt (uuidCount st) op a' b' S)
          (applyOperator rt (uuidCount st) op (absOperand S a') (absOperand S b'))" .
      show ?thesis
      proof (cases "applyOperatorS rt (uuidCount st) op a' b' S")
        case (Inl failure)
        with sim a' b' popped popped2 poppedV popped2V count show ?thesis
          by (auto simp: worldSim_def opSim_def split: prod.splits)
      next
        case (Inr res)
        obtain r k' S' where res: "res = ((r, k'), S')" by (cases res) auto
        from Inr res have run: "applyOperatorS rt (uuidCount st) op a' b' S = Inr ((r, k'), S')"
          by simp
        with sim have run': "applyOperator rt (uuidCount st) op (absOperand S a')
            (absOperand S b') = Inr (absOperand S' r, k')"
          and r: "operandAllocated S' r" by (simp_all add: opSim_def)
        from run applyOperatorS_extends [of S rt "uuidCount st" op a' b']
        have step: "storeExtends S S'" by (simp add: storeAfter_def)
        have restAlloc': "list_all (operandAllocated S') rest'"
          using restAlloc2 operandAllocated_storeExtends(1) [OF step] by (simp add: list_all_iff)
        have rest'': "map (absOperand S) rest' = map (absOperand S') rest'"
          by (rule map_cong [OF refl])
            (use restAlloc2 operandAllocated_storeExtends(2) [OF step] in
              \<open>simp add: list_all_iff\<close>)
        from pushResult_sim [where mm = mm and ?S0.0 = S0,
            OF stateRel_rest [where k = k', OF stateRel_storeExtends [OF step rel] restAlloc'] r]
        have "stateRel S' (pushResult mm r (st\<lparr>stack := rest', uuidCount := k'\<rparr>))
            (pushResult (map (apsnd (absM S0)) mm) (absOperand S' r)
               (st'\<lparr>stack := map (absOperand S) rest', uuidCount := k'\<rparr>))"
          by (simp add: rest'')
        with a' b' popped popped2 poppedV popped2V count run run' storeExtends_trans [OF ext step]
        show ?thesis by (simp add: worldSim_def)
      qed
    qed
  qed
qed

lemma evalTokenS_sim:
  assumes inputs: "list_all (\<lambda>m. allocated S0 (data m)) (map snd mm)"
    and ext: "storeExtends S0 S"
    and rel: "stateRel S st st'"
  shows "worldSim S0 (evalTokenS rt mm token (st, S))
           (evalToken rt (map (apsnd (absM S0)) mm) token st')"
proof -
  have number: "worldSim S0 (Inr (st\<lparr>stack := stack st @ [Scalar x]\<rparr>, S))
      (Inr (st'\<lparr>stack := stack st' @ [Scalar x]\<rparr>))" for x
    using rel ext by (simp add: worldSim_def stateRel_def absOperand_def operandAllocated_def)
  have skip: "worldSim S0 (Inr (st, S)) (Inr st')"
    using rel ext by (simp add: worldSim_def)
  show ?thesis
    unfolding evalTokenS_def evalToken_def
    using number skip evalTokenS_sim_identifier [OF inputs ext rel]
      evalTokenS_sim_transpose [OF ext rel] evalTokenS_sim_binary [OF ext rel]
    by simp
qed

lemma forEach_sim:
  assumes inputs: "list_all (\<lambda>m. allocated S0 (data m)) (map snd mm)"
    and ext: "storeExtends S0 S"
    and rel: "stateRel S st st'"
  shows "worldSim S0 (forEach rpn (evalTokenS rt mm) (st, S))
           (forEach rpn (evalToken rt (map (apsnd (absM S0)) mm)) st')"
  using ext rel
proof (induction rpn arbitrary: st st' S)
  case Nil
  then show ?case by (simp add: worldSim_def)
next
  case (Cons token rpn)
  from evalTokenS_sim [OF inputs Cons.prems, of rt token]
  have sim: "worldSim S0 (evalTokenS rt mm token (st, S))
      (evalToken rt (map (apsnd (absM S0)) mm) token st')" .
  show ?case
  proof (cases "evalTokenS rt mm token (st, S)")
    case (Inl failure)
    with sim show ?thesis by (auto simp: worldSim_def split: prod.splits)
  next
    case (Inr world)
    obtain st1 S1 where world: "world = (st1, S1)" by (cases world)
    from sim Inr world obtain st1' where
      step': "evalToken rt (map (apsnd (absM S0)) mm) token st' = Inr st1'"
      and rel1: "stateRel S1 st1 st1'" and ext1: "storeExtends S0 S1"
      by (auto simp: worldSim_def split: sum.splits)
    from Cons.IH [OF ext1 rel1] Inr world step' show ?thesis by simp
  qed
qed

text \<open>The resolver, and a whole evaluation.\<close>

lemma update_abs:
  "AList.update key (f v) (map (apsnd f) al) = map (apsnd f) (AList.update key v al)"
  by (induction al) auto

lemma registerMatrix_abs:
  assumes "name (f m) = name m"
  shows "registerMatrix (idx, f m) (map (apsnd f) mm) =
         map (apsnd f) (registerMatrix (idx, m) mm)"
  unfolding registerMatrix_def Let_def
  by (simp add: assms update_abs map_of_abs split: option.splits)

lemma fold_registerMatrix_abs:
  assumes "\<And>m. name (f m) = name m"
  shows "fold registerMatrix (map (apsnd f) entries) (map (apsnd f) mm) =
         map (apsnd f) (fold registerMatrix entries mm)"
proof (induction entries arbitrary: mm)
  case Nil
  then show ?case by simp
next
  case (Cons entry entries)
  obtain idx m where entry: "entry = (idx, m)" by (cases entry)
  have "registerMatrix (idx, f m) (map (apsnd f) mm) =
      map (apsnd f) (registerMatrix (idx, m) mm)"
    by (rule registerMatrix_abs) (rule assms)
  with Cons.IH [of "registerMatrix (idx, m) mm"] entry show ?case
    by simp
qed

lemma enumerate_abs: "enumerate n (map f xs) = map (apsnd f) (enumerate n xs)"
  by (induction xs arbitrary: n) auto

lemma buildMatrixMap_abs:
  "buildMatrixMap (map (absM S) ms) = map (apsnd (absM S)) (buildMatrixMap ms)"
  using fold_registerMatrix_abs [of "absM S" "enumerate 0 ms" "[]"]
  by (simp add: buildMatrixMap_def enumerate_abs)

theorem evaluateExpressionS_simulates:
  assumes "list_all (\<lambda>m. allocated S (data m)) availableMatrices"
  shows "case evaluateExpressionS rt expression availableMatrices S of
           Inl (e, S') \<Rightarrow>
             evaluateExpression rt expression (map (absM S) availableMatrices) = Inl e
         | Inr (trace, S') \<Rightarrow>
             evaluateExpression rt expression (map (absM S) availableMatrices) =
               Inr (map (absM S') trace)"
proof (cases "trim expression = []")
  case True
  then show ?thesis by (simp add: evaluateExpressionS_def evaluateExpression_def)
next
  case False
  define mm where "mm = buildMatrixMap availableMatrices"
  define rpn where "rpn = toRPN (tokenize expression)"
  define start :: "addr EvalState"
    where "start = \<lparr>stack = [], executionTrace = [], uuidCount = 0\<rparr>"
  define start' :: "grid EvalState"
    where "start' = \<lparr>stack = [], executionTrace = [], uuidCount = 0\<rparr>"
  from values_buildMatrixMap [of availableMatrices] assms
  have inputs: "list_all (\<lambda>m. allocated S (data m)) (map snd mm)"
    unfolding mm_def list_all_iff by auto
  have rel: "stateRel S start start'"
    by (simp add: stateRel_def start_def start'_def)
  from forEach_sim [OF inputs storeExtends_refl rel, of rpn rt]
  have sim: "worldSim S (forEach rpn (evalTokenS rt mm) (start, S))
      (forEach rpn (evalToken rt (map (apsnd (absM S)) mm)) start')" .
  have runS: "evaluateExpressionS rt expression availableMatrices S =
      (case forEach rpn (evalTokenS rt mm) (start, S) of
         Inl failure \<Rightarrow> Inl failure
       | Inr (st, S') \<Rightarrow>
           if length (stack st) \<noteq> 1 then Inl (MalformedExpression, S')
           else (case stack st ! 0 of
                   Scalar x \<Rightarrow> Inl (FinalResultMustBeMatrix, S')
                 | Mat finalResult \<Rightarrow> Inr (executionTrace st, S')))"
    using False by (simp add: evaluateExpressionS_def mm_def rpn_def start_def)
  have run: "evaluateExpression rt expression (map (absM S) availableMatrices) =
      (case forEach rpn (evalToken rt (map (apsnd (absM S)) mm)) start' of
         Inl e \<Rightarrow> Inl e
       | Inr st \<Rightarrow>
           if length (stack st) \<noteq> 1 then Inl MalformedExpression
           else (case stack st ! 0 of
                   Scalar x \<Rightarrow> Inl FinalResultMustBeMatrix
                 | Mat finalResult \<Rightarrow> Inr (executionTrace st)))"
    using False
    by (simp add: evaluateExpression_def mm_def rpn_def start'_def buildMatrixMap_abs)
  show ?thesis
  proof (cases "forEach rpn (evalTokenS rt mm) (start, S)")
    case (Inl failure)
    with sim show ?thesis
      unfolding runS run by (auto simp: worldSim_def split: prod.splits)
  next
    case (Inr world)
    obtain st S' where world: "world = (st, S')" by (cases world)
    from sim Inr world obtain st' where
      loop': "forEach rpn (evalToken rt (map (apsnd (absM S)) mm)) start' = Inr st'"
      and final: "stateRel S' st st'"
      by (auto simp: worldSim_def split: sum.splits)
    from final have stack': "stack st' = map (absOperand S') (stack st)"
      and trace': "executionTrace st' = map (absM S') (executionTrace st)"
      by (simp_all add: stateRel_def)
    show ?thesis
    proof (cases "length (stack st) = 1")
      case False
      with Inr world loop' stack' show ?thesis unfolding runS run by simp
    next
      case True
      then have "stack st' ! 0 = absOperand S' (stack st ! 0)"
        by (simp add: stack')
      with True Inr world loop' stack' trace' show ?thesis
        unfolding runS run by (cases "stack st ! 0") (simp_all add: absOperand_def)
    qed
  qed
qed

end
